theory Spec2Isabelle
  imports Main "HOL-Library.AList" "HOL-Library.Sublist" "HOL-Library.Monad_Syntax"
begin

section \<open>JSON documents and the JavaScript operations on them\<close>

text \<open>
  A JSON value, in a file or in memory. An object is the list of its own properties in
  enumeration order (the order of \<^verbatim>\<open>Object.entries\<close> and of \<^verbatim>\<open>JSON.stringify\<close>), each key
  once; a property that is added goes to the end and one that is overwritten keeps its
  place, as in JavaScript for the non-numeric keys the services add. Numbers are integers.
  In a file a number is the numeral that is written there; in memory it is a double (see
  \<open>JSON_parse\<close> below). A value of type \<open>json option\<close> is a JavaScript value that may be
  \<^verbatim>\<open>undefined\<close> (\<open>None\<close>). An operation that may throw returns an option of its result,
  \<open>None\<close> for the exception; all the code below runs inside \<^verbatim>\<open>try\<close> blocks that catch
  every exception.
\<close>

datatype json =
    JNull
  | JBool bool
  | JNum int
  | JStr string
  | JArr "json list"
  | JObj "(string \<times> json) list"

text \<open>The truth value of a condition \<^verbatim>\<open>!v\<close> is \<open>\<not> truthy v\<close>.\<close>

fun truthy :: "json option \<Rightarrow> bool" where
  "truthy None = False"
| "truthy (Some JNull) = False"
| "truthy (Some (JBool b)) = b"
| "truthy (Some (JNum n)) = (n \<noteq> 0)"
| "truthy (Some (JStr s)) = (s \<noteq> [])"
| "truthy (Some (JArr xs)) = True"
| "truthy (Some (JObj kvs)) = True"

text \<open>The property key of an array index: its decimal numeral.\<close>

definition digit_char :: "nat \<Rightarrow> char" where
  "digit_char n = char_of (48 + n)"

fun index_key :: "nat \<Rightarrow> string" where
  "index_key n =
     (if n < 10 then [digit_char n] else index_key (n div 10) @ [digit_char (n mod 10)])"

declare index_key.simps [simp del]

text \<open>
  \<open>member v k\<close> is the property read \<^verbatim>\<open>v.k\<close> (or \<^verbatim>\<open>v[k]\<close> with a string \<open>k\<close>) for the keys
  the services use (\<^verbatim>\<open>hooks\<close>, \<^verbatim>\<open>matcher\<close> and the event type names), none of which is an
  index or a built-in property of arrays, strings, numbers or booleans. Reading a property
  of \<^verbatim>\<open>undefined\<close> or \<^verbatim>\<open>null\<close> throws a TypeError.
\<close>

fun member :: "json option \<Rightarrow> string \<Rightarrow> json option option" where
  "member None k = None"
| "member (Some JNull) k = None"
| "member (Some (JObj kvs)) k = Some (map_of kvs k)"
| "member (Some v) k = Some None"

text \<open>\<open>element v i\<close> is the indexed read \<^verbatim>\<open>v[i]\<close> with a number \<open>i\<close>.\<close>

fun element :: "json option \<Rightarrow> nat \<Rightarrow> json option option" where
  "element None i = None"
| "element (Some JNull) i = None"
| "element (Some (JArr xs)) i = Some (if i < length xs then Some (xs ! i) else None)"
| "element (Some (JObj kvs)) i = Some (map_of kvs (index_key i))"
| "element (Some (JStr s)) i = Some (if i < length s then Some (JStr [s ! i]) else None)"
| "element (Some v) i = Some None"

text \<open>
  \<open>modify_member v k f\<close> and \<open>modify_element v i f\<close> rebuild the container \<open>v\<close> after the value
  stored under \<open>k\<close> (at \<open>i\<close>) has been mutated in place by \<open>f\<close>. JavaScript mutates the
  object that the read returned; the model writes the new value back along the path that
  was read. Only an object and an array hold values that can be mutated in place.
\<close>

fun modify_member :: "json \<Rightarrow> string \<Rightarrow> (json \<Rightarrow> json option) \<Rightarrow> json option" where
  "modify_member (JObj kvs) k f =
     (case map_of kvs k of
        None \<Rightarrow> None
      | Some v \<Rightarrow> map_option (\<lambda>v'. JObj (AList.update k v' kvs)) (f v))"
| "modify_member v k f = None"

fun modify_element :: "json \<Rightarrow> nat \<Rightarrow> (json \<Rightarrow> json option) \<Rightarrow> json option" where
  "modify_element (JArr xs) i f =
     (if i < length xs then map_option (\<lambda>v'. JArr (xs[i := v'])) (f (xs ! i)) else None)"
| "modify_element (JObj kvs) i f =
     (case map_of kvs (index_key i) of
        None \<Rightarrow> None
      | Some v \<Rightarrow> map_option (\<lambda>v'. JObj (AList.update (index_key i) v' kvs)) (f v))"
| "modify_element v i f = None"

text \<open>
  The assignment \<^verbatim>\<open>v[i] = x\<close> in strict mode (the services are modules). An array
  assigned beyond its end grows, the gap reading as \<^verbatim>\<open>null\<close> when it is serialised; a
  string and the other primitive values reject the assignment with a TypeError. (Where
  \<^verbatim>\<open>updateHook\<close> assigns, its guard has found a value at the index, so an array is long
  enough and an object has the key.)
\<close>

fun assign_element :: "nat \<Rightarrow> json \<Rightarrow> json \<Rightarrow> json option" where
  "assign_element i x (JArr xs) =
     Some (JArr (if i < length xs then xs[i := x]
                 else xs @ replicate (i - length xs) JNull @ [x]))"
| "assign_element i x (JObj kvs) = Some (JObj (AList.update (index_key i) x kvs))"
| "assign_element i x v = None"

text \<open>
  \<^verbatim>\<open>v.splice(i, 1)\<close>: only an array has the method (no JSON value is a function, so on
  every other value the call throws).
\<close>

definition remove_nth :: "nat \<Rightarrow> 'a list \<Rightarrow> 'a list" where
  "remove_nth i xs = take i xs @ drop (Suc i) xs"

fun splice_one :: "nat \<Rightarrow> json \<Rightarrow> json option" where
  "splice_one i (JArr xs) = Some (JArr (remove_nth i xs))"
| "splice_one i v = None"

text \<open>\<^verbatim>\<open>v.push(x)\<close>, likewise.\<close>

fun push :: "json \<Rightarrow> json \<Rightarrow> json option" where
  "push x (JArr xs) = Some (JArr (xs @ [x]))"
| "push x v = None"

text \<open>The test \<^verbatim>\<open>v.length === 0\<close> on a value that is neither null nor undefined.\<close>

fun length_is_zero :: "json \<Rightarrow> bool" where
  "length_is_zero (JArr xs) = (xs = [])"
| "length_is_zero (JStr s) = (s = [])"
| "length_is_zero (JObj kvs) = (map_of kvs ''length'' = Some (JNum 0))"
| "length_is_zero v = False"

text \<open>\<^verbatim>\<open>delete v[k]\<close> on an object.\<close>

fun delete_member :: "string \<Rightarrow> json \<Rightarrow> json option" where
  "delete_member k (JObj kvs) = Some (JObj (AList.delete k kvs))"
| "delete_member k v = Some v"

text \<open>\<^verbatim>\<open>Object.entries(v)\<close> for a value with \<^verbatim>\<open>typeof v === 'object'\<close> that is not null.\<close>

fun object_entries :: "json \<Rightarrow> (string \<times> json) list" where
  "object_entries (JObj kvs) = kvs"
| "object_entries (JArr xs) = zip (map index_key [0..<length xs]) xs"
| "object_entries v = []"

text \<open>
  A JavaScript number is a double: a significand of 53 bits and an exponent.
  \<open>to_double n\<close> is the double nearest to the integer \<open>n\<close>, the one with the even
  significand when two are equally near. \<open>excess a\<close> is the number of low bits of \<open>a\<close> that
  do not fit into the significand. (The exponent is not bounded here: a numeral of more
  than 308 digits, which JavaScript reads as \<^verbatim>\<open>Infinity\<close>, is rounded like any other.)
\<close>

fun excess :: "nat \<Rightarrow> nat" where
  "excess a = (if a < 2 ^ 53 then 0 else Suc (excess (a div 2)))"

declare excess.simps [simp del]

definition round_nat :: "nat \<Rightarrow> nat" where
  "round_nat a =
     (let e = excess a; q = a div 2 ^ e; r = a mod 2 ^ e
      in if e = 0 then a
         else if 2 ^ (e - 1) < r \<or> (r = 2 ^ (e - 1) \<and> odd q) then (q + 1) * 2 ^ e
         else q * 2 ^ e)"

definition to_double :: "int \<Rightarrow> int" where
  "to_double n = (if n < 0 then - int (round_nat (nat (- n))) else int (round_nat (nat n)))"

text \<open>
  \<^verbatim>\<open>JSON.parse\<close> on the text of a document: every numeral becomes the nearest double.
  \<^verbatim>\<open>JSON.stringify\<close> writes a value as it is in memory, a double by a numeral that reads
  back as the same double.
\<close>

primrec JSON_parse :: "json \<Rightarrow> json" where
  "JSON_parse JNull = JNull"
| "JSON_parse (JBool b) = JBool b"
| "JSON_parse (JNum n) = JNum (to_double n)"
| "JSON_parse (JStr s) = JStr s"
| "JSON_parse (JArr xs) = JArr (map JSON_parse xs)"
| "JSON_parse (JObj kvs) = JObj (map (map_prod id JSON_parse) kvs)"

section \<open>Paths and the file system\<close>

text \<open>
  An absolute, normalised path is the list of its segments. \<^verbatim>\<open>path.join\<close> of such a path
  and of a name that the code fixes (a constant, or a base name) is \<open>@\<close>; with a string
  that comes from the user or from a caller it is \<open>path_join\<close>, which cuts the string at
  every \<^verbatim>\<open>/\<close> and normalises: an empty segment and \<^verbatim>\<open>.\<close> go, and \<^verbatim>\<open>..\<close> takes the segment
  before it away (at the root there is none to take).
\<close>

type_synonym path = "string list"

fun split_path :: "string \<Rightarrow> string list" where
  "split_path [] = [[]]"
| "split_path (c # cs) =
     (if c = CHR ''/'' then [] # split_path cs
      else case split_path cs of [] \<Rightarrow> [[c]] | w # ws \<Rightarrow> (c # w) # ws)"

definition join_segment :: "path \<Rightarrow> string \<Rightarrow> path" where
  "join_segment p seg =
     (if seg = [] \<or> seg = ''.'' then p else if seg = ''..'' then butlast p else p @ [seg])"

definition path_join :: "path \<Rightarrow> string \<Rightarrow> path" where
  "path_join p s = foldl join_segment p (split_path s)"

definition dirname :: "path \<Rightarrow> path" where
  "dirname p = butlast p"

definition basename :: "path \<Rightarrow> string" where
  "basename p = (if p = [] then [] else last p)"

text \<open>\<^verbatim>\<open>path.relative(from, to)\<close>.\<close>

fun relative :: "path \<Rightarrow> path \<Rightarrow> path" where
  "relative (a # as) (b # bs) =
     (if a = b then relative as bs else replicate (length (a # as)) ''..'' @ (b # bs))"
| "relative [] bs = bs"
| "relative as [] = replicate (length as) ''..''"

text \<open>A relative path printed as a string, with \<^verbatim>\<open>/\<close> between the segments.\<close>

fun path_string :: "path \<Rightarrow> string" where
  "path_string [] = []"
| "path_string [a] = a"
| "path_string (a # b # r) = a @ ''/'' @ path_string (b # r)"

text \<open>
  The text of a file: \<open>Doc j\<close> is a file whose text is a JSON text for the value \<open>j\<close>, with
  the numerals that \<open>j\<close> has (what writing \<^verbatim>\<open>JSON.stringify(j, null, 2)\<close> produces for a
  value \<open>j\<close> in memory); \<open>Text s\<close> is a file with any other text \<open>s\<close>, on which
  \<^verbatim>\<open>JSON.parse\<close> throws. \<open>Text []\<close> is the empty file.
\<close>

datatype content = Text string | Doc json

datatype node = File content | Directory

text \<open>
  The file system: the nodes by path (the root directory \<open>[]\<close> always exists); the paths
  that the process has no permission to write (\<open>locked\<close>: in such a directory it may not
  create, remove or rename entries, and it may not move the directory to another parent;
  the content of such a file it may not change); and the files for which the device has
  no room (\<open>no_space\<close>: opening one for writing succeeds, and empties or creates it, and
  the write that follows fails).
\<close>

record filesystem =
  nodes :: "(path \<times> node) list"
  locked :: "path list"
  no_space :: "path list"

datatype errno =
  ENOENT | ENOTDIR | EISDIR | ENOTEMPTY | EACCES | EINVAL | ENAMETOOLONG | ENOSPC

text \<open>The longest name that a directory entry can have.\<close>

definition NAME_MAX :: nat where
  "NAME_MAX = 255"

definition lookup :: "filesystem \<Rightarrow> path \<Rightarrow> node option" where
  "lookup fs p = (if p = [] then Some Directory else map_of (nodes fs) p)"

definition writable :: "filesystem \<Rightarrow> path \<Rightarrow> bool" where
  "writable fs d = (d \<notin> set (locked fs))"

text \<open>
  \<^verbatim>\<open>fileExists\<close> and \<^verbatim>\<open>directoryExists\<close> of the discovery and hooks services
  (\<^verbatim>\<open>stat\<close>, then \<^verbatim>\<open>isFile()\<close> or \<^verbatim>\<open>isDirectory()\<close>, false on any error).
\<close>

definition fileExists :: "filesystem \<Rightarrow> path \<Rightarrow> bool" where
  "fileExists fs p = (case lookup fs p of Some (File c) \<Rightarrow> True | _ \<Rightarrow> False)"

definition directoryExists :: "filesystem \<Rightarrow> path \<Rightarrow> bool" where
  "directoryExists fs p = (lookup fs p = Some Directory)"

text \<open>\<^verbatim>\<open>fileExists\<close> of FileOperationsService (\<^verbatim>\<open>access\<close>): any kind of node.\<close>

definition pathExists :: "filesystem \<Rightarrow> path \<Rightarrow> bool" where
  "pathExists fs p = (lookup fs p \<noteq> None)"

definition readFile :: "filesystem \<Rightarrow> path \<Rightarrow> errno + content" where
  "readFile fs p =
     (case lookup fs p of
        None \<Rightarrow> Inl ENOENT
      | Some Directory \<Rightarrow> Inl EISDIR
      | Some (File c) \<Rightarrow> Inr c)"

text \<open>\<^verbatim>\<open>JSON.parse(await readFile(p))\<close>: \<open>None\<close> when either step throws.\<close>

definition read_json :: "filesystem \<Rightarrow> path \<Rightarrow> json option" where
  "read_json fs p = (case readFile fs p of Inr (Doc j) \<Rightarrow> Some (JSON_parse j) | _ \<Rightarrow> None)"

text \<open>
  \<^verbatim>\<open>writeFile(p, c)\<close> opens the file for writing, which creates it or empties it, and then
  writes the content. It returns the error, if there is one, and the file system that
  it leaves: when the write fails after the file has been opened, the file stays empty.
  (A write that is cut short after a part of the content leaves that part; the model has
  the case in which nothing has been written, and the statement about failed mutations
  allows any content in such a file.)
\<close>

definition open_and_write :: "filesystem \<Rightarrow> path \<Rightarrow> content \<Rightarrow> errno option \<times> filesystem" where
  "open_and_write fs p c =
     (if \<not> writable fs p then (Some EACCES, fs)
      else if p \<in> set (no_space fs)
        then (Some ENOSPC, fs\<lparr>nodes := AList.update p (File (Text [])) (nodes fs)\<rparr>)
      else (None, fs\<lparr>nodes := AList.update p (File c) (nodes fs)\<rparr>))"

definition writeFile :: "filesystem \<Rightarrow> path \<Rightarrow> content \<Rightarrow> errno option \<times> filesystem" where
  "writeFile fs p c =
     (case lookup fs p of
        Some Directory \<Rightarrow> (Some EISDIR, fs)
      | Some (File old) \<Rightarrow> open_and_write fs p c
      | None \<Rightarrow>
          if \<not> directoryExists fs (dirname p) then (Some ENOENT, fs)
          else if NAME_MAX < length (basename p) then (Some ENAMETOOLONG, fs)
          else if \<not> writable fs (dirname p) then (Some EACCES, fs)
          else open_and_write fs p c)"

definition readdir :: "filesystem \<Rightarrow> path \<Rightarrow> errno + string list" where
  "readdir fs p =
     (case lookup fs p of
        None \<Rightarrow> Inl ENOENT
      | Some (File c) \<Rightarrow> Inl ENOTDIR
      | Some Directory \<Rightarrow>
          Inr (map (\<lambda>(q, n). last q) (filter (\<lambda>(q, n). q \<noteq> [] \<and> butlast q = p) (nodes fs))))"

definition unlink :: "filesystem \<Rightarrow> path \<Rightarrow> errno + filesystem" where
  "unlink fs p =
     (case lookup fs p of
        None \<Rightarrow> Inl ENOENT
      | Some Directory \<Rightarrow> Inl EISDIR
      | Some (File c) \<Rightarrow>
          if \<not> writable fs (dirname p) then Inl EACCES
          else Inr (fs\<lparr>nodes := AList.delete p (nodes fs)\<rparr>))"

definition rmdir :: "filesystem \<Rightarrow> path \<Rightarrow> errno + filesystem" where
  "rmdir fs p =
     (case lookup fs p of
        None \<Rightarrow> Inl ENOENT
      | Some (File c) \<Rightarrow> Inl ENOTDIR
      | Some Directory \<Rightarrow>
          if p = [] then Inl EINVAL
          else if readdir fs p \<noteq> Inr [] then Inl ENOTEMPTY
          else if \<not> writable fs (dirname p) then Inl EACCES
          else Inr (fs\<lparr>nodes := AList.delete p (nodes fs)\<rparr>))"

text \<open>
  \<^verbatim>\<open>rm(p, {recursive: true, force: true})\<close>: every node below \<open>p\<close> goes whose whole subtree
  can be removed; the call fails when \<open>p\<close> itself is still there, and then what could be
  removed may be gone all the same. A path that does not exist is not an error.
\<close>

definition removable :: "filesystem \<Rightarrow> path \<Rightarrow> bool" where
  "removable fs q = list_all (\<lambda>(r, n). prefix q r \<longrightarrow> writable fs (dirname r)) (nodes fs)"

definition rm_rf :: "filesystem \<Rightarrow> path \<Rightarrow> errno option \<times> filesystem" where
  "rm_rf fs p =
     (let keep = filter (\<lambda>(r, n). \<not> (prefix p r \<and> removable fs r)) (nodes fs)
      in (if map_of keep p = None then None else Some EACCES, fs\<lparr>nodes := keep\<rparr>))"

text \<open>
  \<^verbatim>\<open>mkdir(p, {recursive: true})\<close> creates the missing directories on the way to \<open>p\<close> one
  after the other, from the outermost on. It stops at the first one that it cannot
  create, and the ones it has created stay. It returns the error, if there is one, and
  the file system that it leaves.
\<close>

fun mkdirs :: "filesystem \<Rightarrow> path list \<Rightarrow> errno option \<times> filesystem" where
  "mkdirs fs [] = (None, fs)"
| "mkdirs fs (q # qs) =
     (if NAME_MAX < length (basename q) then (Some ENAMETOOLONG, fs)
      else if \<not> writable fs (dirname q) then (Some EACCES, fs)
      else mkdirs (fs\<lparr>nodes := nodes fs @ [(q, Directory)]\<rparr>) qs)"

definition mkdir_p :: "filesystem \<Rightarrow> path \<Rightarrow> errno option \<times> filesystem" where
  "mkdir_p fs p =
     (if list_ex (fileExists fs) (prefixes p) then (Some ENOTDIR, fs)
      else mkdirs fs (filter (\<lambda>q. lookup fs q = None) (prefixes p)))"

text \<open>
  \<^verbatim>\<open>rename(src, dst)\<close> moves a file or a whole directory, replacing a file at \<open>dst\<close>. It
  changes nothing when it fails.
\<close>

definition rename :: "filesystem \<Rightarrow> path \<Rightarrow> path \<Rightarrow> errno + filesystem" where
  "rename fs src dst =
     (case lookup fs src of
        None \<Rightarrow> Inl ENOENT
      | Some n \<Rightarrow>
          if \<not> directoryExists fs (dirname dst) then Inl ENOENT
          else if src = [] \<or> dst = [] then Inl EINVAL
          else if NAME_MAX < length (basename dst) then Inl ENAMETOOLONG
          else if src = dst then Inr fs
          else if prefix src dst then Inl EINVAL
          else if \<not> writable fs (dirname src) \<or> \<not> writable fs (dirname dst) then Inl EACCES
          else if n = Directory \<and> fileExists fs dst then Inl ENOTDIR
          else if n \<noteq> Directory \<and> directoryExists fs dst then Inl EISDIR
          else if n = Directory \<and> dirname src \<noteq> dirname dst \<and> \<not> writable fs src
            then Inl EACCES
          else if n = Directory \<and> directoryExists fs dst \<and> readdir fs dst \<noteq> Inr []
            then Inl ENOTEMPTY
          else Inr (fs\<lparr>nodes :=
                 map (\<lambda>(q, m). if prefix src q then (dst @ drop (length src) q, m) else (q, m))
                   (AList.delete dst (nodes fs))\<rparr>))"

text \<open>
  What a mutation reports when it does not succeed: it returned \<^verbatim>\<open>false\<close> or \<^verbatim>\<open>null\<close>
  without a word (\<open>Declined\<close>), after \<^verbatim>\<open>showInformationMessage\<close> (\<open>Notice\<close>) or after
  \<^verbatim>\<open>showErrorMessage\<close> (\<open>ErrorMessage\<close>, with the fixed part of the message).
\<close>

datatype failure = Declined | Notice string | ErrorMessage string

text \<open>The configured global directory and the first workspace folder, if one is open.\<close>

record env =
  globalClaudePath :: path
  workspaceFolder :: "path option"



section \<open>Permission patterns (PermissionsService.parsePermissionPattern)\<close>

text \<open>
  Strings are lists of 8-bit characters. The regular expression of the source is
  \<^verbatim>\<open>/^(\w+)[\(:](.*?)[\)]?$/\<close>, without flags: \<^verbatim>\<open>\w\<close> is a letter, a digit or the
  underscore, and the dot matches every character but a line terminator (line feed and
  carriage return among the 8-bit characters).
\<close>

definition word_char :: "char \<Rightarrow> bool" where
  "word_char c =
     (let n = (of_char c :: nat)
      in (48 \<le> n \<and> n \<le> 57) \<or> (65 \<le> n \<and> n \<le> 90) \<or> n = 95 \<or> (97 \<le> n \<and> n \<le> 122))"

definition line_terminator :: "char \<Rightarrow> bool" where
  "line_terminator c = (c = CHR 0x0A \<or> c = CHR 0x0D)"

text \<open>
  \<open>regex_match s\<close> is the result of \<^verbatim>\<open>pattern.match(...)\<close>: the two capture groups, or
  \<open>None\<close> for \<^verbatim>\<open>null\<close>. The greedy \<^verbatim>\<open>\w+\<close> takes the longest run of word characters
  (a shorter run would be followed by a word character, not by a delimiter); the next
  character must be an opening parenthesis or a colon; the lazy \<^verbatim>\<open>.*?\<close> stops at the
  first position from which \<^verbatim>\<open>[\)]?$\<close> matches, which is the last character when that is a
  closing parenthesis and the end of the string otherwise.
\<close>

definition regex_match :: "string \<Rightarrow> (string \<times> string) option" where
  "regex_match s =
     (let w = takeWhile word_char s; r = dropWhile word_char s
      in if w = [] then None
         else case r of
           [] \<Rightarrow> None
         | d # rest \<Rightarrow>
             if d \<noteq> CHR ''('' \<and> d \<noteq> CHR '':'' then None
             else let body = (if rest \<noteq> [] \<and> last rest = CHR '')'' then butlast rest else rest)
                  in if list_ex line_terminator body then None else Some (w, body))"

record parsed_pattern =
  tool :: string
  pattern :: string

definition parsePermissionPattern :: "string \<Rightarrow> parsed_pattern" where
  "parsePermissionPattern p =
     (case regex_match p of
        Some (g1, g2) \<Rightarrow> \<lparr>tool = g1, pattern = (if g2 = [] then ''*'' else g2)\<rparr>
      | None \<Rightarrow> \<lparr>tool = p, pattern = ''*''\<rparr>)"

section \<open>Hooks (HooksService)\<close>

datatype HookEventType =
    PreToolUse | PostToolUse | PermissionRequest | Notification | UserPromptSubmit
  | Stop | SubagentStop | SessionStart | SessionEnd | PreCompact

fun event_name :: "HookEventType \<Rightarrow> string" where
  "event_name PreToolUse = ''PreToolUse''"
| "event_name PostToolUse = ''PostToolUse''"
| "event_name PermissionRequest = ''PermissionRequest''"
| "event_name Notification = ''Notification''"
| "event_name UserPromptSubmit = ''UserPromptSubmit''"
| "event_name Stop = ''Stop''"
| "event_name SubagentStop = ''SubagentStop''"
| "event_name SessionStart = ''SessionStart''"
| "event_name SessionEnd = ''SessionEnd''"
| "event_name PreCompact = ''PreCompact''"

datatype hook_kind = Command | Prompt

fun kind_name :: "hook_kind \<Rightarrow> string" where
  "kind_name Command = ''command''"
| "kind_name Prompt = ''prompt''"

text \<open>
  The interface \<^verbatim>\<open>Hook\<close> (its field \<^verbatim>\<open>type\<close> is \<open>hook_type\<close> here), and the object that
  \<^verbatim>\<open>JSON.stringify\<close> writes for it: an absent optional field is left out. The timeout is
  a JavaScript number, the double nearest to the integer of the record.
\<close>

record Hook =
  hook_type :: hook_kind
  command :: "string option"
  prompt :: "string option"
  timeout :: "int option"

definition hook_json :: "Hook \<Rightarrow> json" where
  "hook_json h =
     JObj ([(''type'', JStr (kind_name (hook_type h)))]
           @ (case command h of None \<Rightarrow> [] | Some c \<Rightarrow> [(''command'', JStr c)])
           @ (case prompt h of None \<Rightarrow> [] | Some p \<Rightarrow> [(''prompt'', JStr p)])
           @ (case timeout h of None \<Rightarrow> [] | Some t \<Rightarrow> [(''timeout'', JNum (to_double t))]))"

text \<open>
  What \<^verbatim>\<open>parseHooks\<close> returns. It copies \<^verbatim>\<open>matcherObj.matcher\<close> and the array
  \<^verbatim>\<open>matcherObj.hooks\<close> as they are in the document.
\<close>

record HookMatcher =
  matcher :: "json option"
  hooks :: "json list"

record HookConfiguration =
  eventType :: string
  matchers :: "HookMatcher list"
  location :: string
  configPath :: path

text \<open>
  The inner loop of \<^verbatim>\<open>parseHooks\<close>. An entry is skipped when
  \<^verbatim>\<open>typeof matcherObj !== 'object' || !matcherObj.hooks || !Array.isArray(matcherObj.hooks)\<close>.
  The type of \<^verbatim>\<open>null\<close> is \<^verbatim>\<open>'object'\<close>, so on a null entry the second test reads a property
  of \<^verbatim>\<open>null\<close> and throws.
\<close>

fun parse_matchers :: "json list \<Rightarrow> HookMatcher list option" where
  "parse_matchers [] = Some []"
| "parse_matchers (JNull # ms) = None"
| "parse_matchers (JObj kvs # ms) =
     (case map_of kvs ''hooks'' of
        Some (JArr hs) \<Rightarrow>
          map_option (\<lambda>r. \<lparr>matcher = map_of kvs ''matcher'', hooks = hs\<rparr> # r) (parse_matchers ms)
      | _ \<Rightarrow> parse_matchers ms)"
| "parse_matchers (m # ms) = parse_matchers ms"

text \<open>The outer loop, over \<^verbatim>\<open>Object.entries(config.hooks)\<close>.\<close>

fun parse_events :: "path \<Rightarrow> string \<Rightarrow> (string \<times> json) list \<Rightarrow> HookConfiguration list option" where
  "parse_events p l [] = Some []"
| "parse_events p l ((t, JArr ms) # rest) =
     (case parse_matchers ms of
        None \<Rightarrow> None
      | Some r \<Rightarrow>
          map_option
            (\<lambda>cs. if r \<noteq> []
                   then \<lparr>eventType = t, matchers = r, location = l, configPath = p\<rparr> # cs
                   else cs)
            (parse_events p l rest))"
| "parse_events p l ((t, v) # rest) = parse_events p l rest"

text \<open>The body of the \<^verbatim>\<open>try\<close> block of \<^verbatim>\<open>parseHooks\<close>, after \<^verbatim>\<open>JSON.parse\<close>.\<close>

definition parseHooks_doc :: "path \<Rightarrow> string \<Rightarrow> json \<Rightarrow> HookConfiguration list option" where
  "parseHooks_doc p l config =
     (case member (Some config) ''hooks'' of
        None \<Rightarrow> None
      | Some (Some (JObj kvs)) \<Rightarrow> parse_events p l (object_entries (JObj kvs))
      | Some (Some (JArr xs)) \<Rightarrow> parse_events p l (object_entries (JArr xs))
      | Some h \<Rightarrow> Some [])"

definition parseHooks :: "filesystem \<Rightarrow> path \<Rightarrow> string \<Rightarrow> HookConfiguration list" where
  "parseHooks fs p l =
     (case read_json fs p of
        None \<Rightarrow> []
      | Some config \<Rightarrow> (case parseHooks_doc p l config of None \<Rightarrow> [] | Some cs \<Rightarrow> cs))"

datatype hook_scope = HookGlobal | HookLocal

definition getSettingsPath :: "env \<Rightarrow> hook_scope \<Rightarrow> path option" where
  "getSettingsPath e s =
     (case s of
        HookGlobal \<Rightarrow> Some (globalClaudePath e @ [''settings.json''])
      | HookLocal \<Rightarrow> map_option (\<lambda>w. w @ [''.claude'', ''settings.local.json'']) (workspaceFolder e))"

definition discoverHooks :: "env \<Rightarrow> filesystem \<Rightarrow> HookConfiguration list" where
  "discoverHooks e fs =
     (let g = globalClaudePath e @ [''settings.json'']
      in if fileExists fs g then parseHooks fs g ''Global (~/.claude)'' else [])
     @ (case workspaceFolder e of
          None \<Rightarrow> []
        | Some w \<Rightarrow>
            let l = w @ [''.claude'', ''settings.local.json'']
            in if fileExists fs l then parseHooks fs l ''Project (.claude/settings.local.json)''
               else [])"

subsection \<open>addHook\<close>

text \<open>
  \<^verbatim>\<open>array.find((m) => m.matcher === matcher)\<close>, as the index of the entry found: the
  callback throws on a null entry that it reaches before a match.
\<close>

fun matcher_is :: "string \<Rightarrow> json \<Rightarrow> bool" where
  "matcher_is k (JObj kvs) = (map_of kvs ''matcher'' = Some (JStr k))"
| "matcher_is k v = False"

fun find_matcher :: "string \<Rightarrow> json list \<Rightarrow> nat option option" where
  "find_matcher k [] = Some None"
| "find_matcher k (JNull # ms) = None"
| "find_matcher k (m # ms) =
     (if matcher_is k m then Some (Some 0)
      else map_option (map_option Suc) (find_matcher k ms))"

text \<open>
  The statements of \<^verbatim>\<open>addHook\<close> from "Find or create matcher entry" to the push of the
  hook, on the array \<^verbatim>\<open>settings.hooks[eventType]\<close>.
\<close>

definition add_to_matchers :: "string \<Rightarrow> json \<Rightarrow> json \<Rightarrow> json option" where
  "add_to_matchers k hook arr =
     (case arr of
        JArr ms \<Rightarrow>
          (case find_matcher k ms of
             None \<Rightarrow> None
           | Some None \<Rightarrow> Some (JArr (ms @ [JObj [(''matcher'', JStr k), (''hooks'', JArr [hook])]]))
           | Some (Some i) \<Rightarrow>
               modify_element (JArr ms) i (\<lambda>entry. modify_member entry ''hooks'' (push hook)))
      | _ \<Rightarrow> None)"

text \<open>
  The in-memory part of \<^verbatim>\<open>addHook\<close>: from the parsed settings to the document that is
  written. A falsy \<^verbatim>\<open>settings.hooks\<close> is replaced by an empty object and a falsy
  \<^verbatim>\<open>settings.hooks[eventType]\<close> by an empty array. When \<^verbatim>\<open>settings\<close> or
  \<^verbatim>\<open>settings.hooks\<close> is an array, the property created on it is not an index, so
  everything stored below it is absent from what \<^verbatim>\<open>JSON.stringify\<close> writes: the document
  comes out as it was, and no statement throws. On a primitive value the assignment of
  the property throws.
\<close>

definition or_default :: "json option \<Rightarrow> json \<Rightarrow> json" where
  "or_default v d = (case v of None \<Rightarrow> d | Some x \<Rightarrow> if truthy (Some x) then x else d)"

definition addHook_doc :: "HookEventType \<Rightarrow> string \<Rightarrow> Hook \<Rightarrow> json \<Rightarrow> json option" where
  "addHook_doc t k h settings =
     (case settings of
        JArr xs \<Rightarrow> Some settings
      | JObj kvs \<Rightarrow>
          (let hs = or_default (map_of kvs ''hooks'') (JObj [])
           in case hs of
                JArr ys \<Rightarrow> Some settings
              | JObj evs \<Rightarrow>
                  (let arr = or_default (map_of evs (event_name t)) (JArr [])
                   in map_option
                        (\<lambda>arr'. JObj (AList.update ''hooks''
                                   (JObj (AList.update (event_name t) arr' evs)) kvs))
                        (add_to_matchers k (hook_json h) arr))
              | _ \<Rightarrow> None)
      | _ \<Rightarrow> None)"

definition addHook ::
  "env \<Rightarrow> filesystem \<Rightarrow> hook_scope \<Rightarrow> HookEventType \<Rightarrow> string \<Rightarrow> Hook
    \<Rightarrow> (failure + unit) \<times> filesystem" where
  "addHook e fs s t k h =
     (case getSettingsPath e s of
        None \<Rightarrow>
          (Inl (ErrorMessage ''Cannot determine settings path for the selected scope.''), fs)
      | Some settingsPath \<Rightarrow>
          (case (if directoryExists fs (dirname settingsPath) then (None, fs)
                 else mkdir_p fs (dirname settingsPath)) of
             (Some err, fs1) \<Rightarrow> (Inl (ErrorMessage ''Failed to add hook''), fs1)
           | (None, fs1) \<Rightarrow>
               (case (if fileExists fs1 settingsPath then read_json fs1 settingsPath
                      else Some (JObj [])) of
                  None \<Rightarrow> (Inl (ErrorMessage ''Failed to add hook''), fs1)
                | Some settings \<Rightarrow>
                    (case addHook_doc t k h settings of
                       None \<Rightarrow> (Inl (ErrorMessage ''Failed to add hook''), fs1)
                     | Some settings' \<Rightarrow>
                         (case writeFile fs1 settingsPath (Doc settings') of
                            (Some err, fs2) \<Rightarrow> (Inl (ErrorMessage ''Failed to add hook''), fs2)
                          | (None, fs2) \<Rightarrow> (Inr (), fs2))))))"

subsection \<open>updateHook and deleteHook\<close>

text \<open>
  The guard of both functions,
  \<^verbatim>\<open>!settings.hooks || !settings.hooks[eventType] || !settings.hooks[eventType][matcherIndex]
  || !settings.hooks[eventType][matcherIndex].hooks[hookIndex]\<close>:
  \<open>Some True\<close> when all four values are truthy, \<open>None\<close> when evaluating it throws.
\<close>

definition hook_found :: "json \<Rightarrow> HookEventType \<Rightarrow> nat \<Rightarrow> nat \<Rightarrow> bool option" where
  "hook_found settings t mi hi =
     do {
       hs \<leftarrow> member (Some settings) ''hooks'';
       if \<not> truthy hs then Some False
       else do {
         arr \<leftarrow> member hs (event_name t);
         if \<not> truthy arr then Some False
         else do {
           m \<leftarrow> element arr mi;
           if \<not> truthy m then Some False
           else do {
             l \<leftarrow> member m ''hooks'';
             x \<leftarrow> element l hi;
             Some (truthy x)
           }
         }
       }
     }"

text \<open>
  Mutating the value at \<^verbatim>\<open>settings.hooks[eventType]\<close> and at
  \<^verbatim>\<open>settings.hooks[eventType][matcherIndex].hooks\<close>.
\<close>

definition on_event :: "HookEventType \<Rightarrow> (json \<Rightarrow> json option) \<Rightarrow> json \<Rightarrow> json option" where
  "on_event t f settings =
     modify_member settings ''hooks'' (\<lambda>hs. modify_member hs (event_name t) f)"

definition on_hooks ::
  "HookEventType \<Rightarrow> nat \<Rightarrow> (json \<Rightarrow> json option) \<Rightarrow> json \<Rightarrow> json option" where
  "on_hooks t mi f settings =
     on_event t (\<lambda>arr. modify_element arr mi (\<lambda>m. modify_member m ''hooks'' f)) settings"

text \<open>The reads in the clean-up conditions of \<^verbatim>\<open>deleteHook\<close>.\<close>

definition matcher_hooks_empty :: "json \<Rightarrow> HookEventType \<Rightarrow> nat \<Rightarrow> bool option" where
  "matcher_hooks_empty settings t mi =
     do {
       hs \<leftarrow> member (Some settings) ''hooks'';
       arr \<leftarrow> member hs (event_name t);
       m \<leftarrow> element arr mi;
       l \<leftarrow> member m ''hooks'';
       case l of None \<Rightarrow> None | Some JNull \<Rightarrow> None | Some v \<Rightarrow> Some (length_is_zero v)
     }"

definition event_empty :: "json \<Rightarrow> HookEventType \<Rightarrow> bool option" where
  "event_empty settings t =
     do {
       hs \<leftarrow> member (Some settings) ''hooks'';
       arr \<leftarrow> member hs (event_name t);
       case arr of None \<Rightarrow> None | Some JNull \<Rightarrow> None | Some v \<Rightarrow> Some (length_is_zero v)
     }"

text \<open>
  \<^verbatim>\<open>Object.keys(settings.hooks).length === 0\<close>; it throws on \<^verbatim>\<open>undefined\<close> and \<^verbatim>\<open>null\<close>.
\<close>

definition hooks_empty :: "json \<Rightarrow> bool option" where
  "hooks_empty settings =
     do {
       hs \<leftarrow> member (Some settings) ''hooks'';
       case hs of
         None \<Rightarrow> None
       | Some JNull \<Rightarrow> None
       | Some (JObj kvs) \<Rightarrow> Some (kvs = [])
       | Some (JArr xs) \<Rightarrow> Some (xs = [])
       | Some (JStr s) \<Rightarrow> Some (s = [])
       | Some v \<Rightarrow> Some True
     }"

definition updateHook_doc :: "HookEventType \<Rightarrow> nat \<Rightarrow> nat \<Rightarrow> Hook \<Rightarrow> json \<Rightarrow> json option" where
  "updateHook_doc t mi hi h settings = on_hooks t mi (assign_element hi (hook_json h)) settings"

definition deleteHook_doc :: "HookEventType \<Rightarrow> nat \<Rightarrow> nat \<Rightarrow> json \<Rightarrow> json option" where
  "deleteHook_doc t mi hi settings =
     do {
       s1 \<leftarrow> on_hooks t mi (splice_one hi) settings;
       e1 \<leftarrow> matcher_hooks_empty s1 t mi;
       s2 \<leftarrow> (if e1 then on_event t (splice_one mi) s1 else Some s1);
       e2 \<leftarrow> event_empty s2 t;
       s3 \<leftarrow> (if e2 then modify_member s2 ''hooks'' (delete_member (event_name t)) else Some s2);
       e3 \<leftarrow> hooks_empty s3;
       if e3 then delete_member ''hooks'' s3 else Some s3
     }"

text \<open>
  The common frame of \<^verbatim>\<open>updateHook\<close> and \<^verbatim>\<open>deleteHook\<close>, with the change \<open>f\<close> and the
  prefix \<open>msg\<close> of the message shown when an exception is caught.
\<close>

definition edit_hooks ::
  "string \<Rightarrow> (json \<Rightarrow> json option) \<Rightarrow> filesystem \<Rightarrow> path \<Rightarrow> HookEventType \<Rightarrow> nat \<Rightarrow> nat
    \<Rightarrow> (failure + unit) \<times> filesystem" where
  "edit_hooks msg f fs p t mi hi =
     (if \<not> fileExists fs p then (Inl (ErrorMessage ''Settings file not found.''), fs)
      else case read_json fs p of
        None \<Rightarrow> (Inl (ErrorMessage msg), fs)
      | Some settings \<Rightarrow>
          (case hook_found settings t mi hi of
             None \<Rightarrow> (Inl (ErrorMessage msg), fs)
           | Some False \<Rightarrow> (Inl (ErrorMessage ''Hook not found in settings.''), fs)
           | Some True \<Rightarrow>
               (case f settings of
                  None \<Rightarrow> (Inl (ErrorMessage msg), fs)
                | Some settings' \<Rightarrow>
                    (case writeFile fs p (Doc settings') of
                       (Some err, fs') \<Rightarrow> (Inl (ErrorMessage msg), fs')
                     | (None, fs') \<Rightarrow> (Inr (), fs')))))"

definition updateHook ::
  "filesystem \<Rightarrow> path \<Rightarrow> HookEventType \<Rightarrow> nat \<Rightarrow> nat \<Rightarrow> Hook \<Rightarrow> (failure + unit) \<times> filesystem" where
  "updateHook fs p t mi hi h =
     edit_hooks ''Failed to update hook'' (updateHook_doc t mi hi h) fs p t mi hi"

definition deleteHook ::
  "filesystem \<Rightarrow> path \<Rightarrow> HookEventType \<Rightarrow> nat \<Rightarrow> nat \<Rightarrow> (failure + unit) \<times> filesystem" where
  "deleteHook fs p t mi hi =
     edit_hooks ''Failed to delete hook'' (deleteHook_doc t mi hi) fs p t mi hi"

section \<open>Memory discovery (FileDiscoveryService)\<close>

datatype LocationScope = ScopeGlobal | ScopeProject | ScopeNested

datatype ClaudeFileType =
  TMemory | TCommand | TSkill | TSubAgent | TMcp | TPermission | TSettings

text \<open>The interface \<^verbatim>\<open>ClaudeFile\<close>; its field \<^verbatim>\<open>type\<close> is \<open>ftype\<close> here.\<close>

record ClaudeFile =
  name :: string
  path :: path
  scope :: LocationScope
  scopeLabel :: string
  ftype :: ClaudeFileType
  isDirectory :: "bool option"
  parentType :: "ClaudeFileType option"

definition CLAUDE_MD_PATTERNS :: "string list" where
  "CLAUDE_MD_PATTERNS = [''CLAUDE.md'', ''claude.md'']"


definition createClaudeFile ::
  "path \<Rightarrow> ClaudeFileType \<Rightarrow> LocationScope \<Rightarrow> string \<Rightarrow> bool option \<Rightarrow> ClaudeFile" where
  "createClaudeFile filePath t s l d =
     \<lparr>name = basename filePath, path = filePath, scope = s, scopeLabel = l, ftype = t,
      isDirectory = d, parentType = (if d = Some True then Some t else None)\<rparr>"

text \<open>
  One of the three loops over \<^verbatim>\<open>CLAUDE_MD_PATTERNS\<close> that stop at the first file name
  found in a directory.
\<close>

fun first_existing :: "filesystem \<Rightarrow> path \<Rightarrow> string list \<Rightarrow> path option" where
  "first_existing fs dir [] = None"
| "first_existing fs dir (p # ps) =
     (if fileExists fs (dir @ [p]) then Some (dir @ [p]) else first_existing fs dir ps)"

definition canonical_memory ::
  "filesystem \<Rightarrow> path \<Rightarrow> LocationScope \<Rightarrow> string \<Rightarrow> ClaudeFile list" where
  "canonical_memory fs dir s l =
     (case first_existing fs dir CLAUDE_MD_PATTERNS of
        None \<Rightarrow> []
      | Some p \<Rightarrow> [createClaudeFile p TMemory s l None])"

text \<open>
  \<^verbatim>\<open>vscode.workspace.findFiles('**/' + pattern, '**/node_modules/**', 100)\<close> in a workspace
  with the single folder \<open>root\<close>: at most 100 of the files below \<open>root\<close>, at any depth, that
  are named \<open>pat\<close> and have no directory \<^verbatim>\<open>node_modules\<close> on the way from \<open>root\<close>.
  Directories whose name starts with a dot are searched like the others.
\<close>

definition findFiles :: "filesystem \<Rightarrow> path \<Rightarrow> string \<Rightarrow> path list" where
  "findFiles fs root pat =
     take 100
       (filter
          (\<lambda>p. fileExists fs p \<and> strict_prefix root p \<and> last p = pat
               \<and> ''node_modules'' \<notin> set (drop (length root) (butlast p)))
          (map fst (nodes fs)))"

definition findNestedClaudeFiles :: "env \<Rightarrow> filesystem \<Rightarrow> path \<Rightarrow> ClaudeFile list" where
  "findNestedClaudeFiles e fs rootPath =
     (case workspaceFolder e of
        None \<Rightarrow> []
      | Some w \<Rightarrow>
          concat
            (map (\<lambda>pat.
                    map (\<lambda>uri. createClaudeFile uri TMemory ScopeNested
                                 (path_string (relative rootPath (dirname uri))) None)
                      (filter (\<lambda>uri. dirname uri \<noteq> rootPath) (findFiles fs w pat)))
               CLAUDE_MD_PATTERNS))"

definition discoverMemories :: "env \<Rightarrow> filesystem \<Rightarrow> ClaudeFile list" where
  "discoverMemories e fs =
     canonical_memory fs (globalClaudePath e) ScopeGlobal ''Global''
     @ (case workspaceFolder e of
          None \<Rightarrow> []
        | Some w \<Rightarrow>
            canonical_memory fs w ScopeProject ''Project Root''
            @ canonical_memory fs (w @ [''.claude'']) ScopeProject ''Project .claude''
            @ findNestedClaudeFiles e fs w)"

section \<open>File operations (FileOperationsService)\<close>


datatype target_scope = TargetGlobal | TargetProject

text \<open>
  \<^verbatim>\<open>moveFile\<close>. \<open>choice\<close> answers the warning about an existing target and \<open>newName\<close> the
  input box that follows the button Rename (the box accepts any text that is not blank,
  also one with \<^verbatim>\<open>/\<close> or \<^verbatim>\<open>..\<close> in it). \<open>move_to\<close> is the part from the call of \<^verbatim>\<open>mkdir\<close>
  on.
\<close>

definition move_to :: "filesystem \<Rightarrow> path \<Rightarrow> path \<Rightarrow> (failure + unit) \<times> filesystem" where
  "move_to fs sourcePath targetPath =
     (case mkdir_p fs (dirname targetPath) of
        (Some err, fs1) \<Rightarrow> (Inl (ErrorMessage ''Failed to move file''), fs1)
      | (None, fs1) \<Rightarrow>
          (case rename fs1 sourcePath targetPath of
             Inl err \<Rightarrow> (Inl (ErrorMessage ''Failed to move file''), fs1)
           | Inr fs2 \<Rightarrow> (Inr (), fs2)))"

definition moveFile ::
  "filesystem \<Rightarrow> path \<Rightarrow> path \<Rightarrow> target_scope \<Rightarrow> string option \<Rightarrow> string option
    \<Rightarrow> (failure + unit) \<times> filesystem" where
  "moveFile fs sourcePath targetPath targetScope choice newName =
     (if pathExists fs targetPath then
        (if choice = Some ''Cancel'' \<or> choice = None \<or> choice = Some [] then (Inl Declined, fs)
         else if choice = Some ''Rename'' then
           (case newName of
              None \<Rightarrow> (Inl Declined, fs)
            | Some n \<Rightarrow>
                if n = [] then (Inl Declined, fs)
                else move_to fs sourcePath (path_join (dirname targetPath) n))
         else move_to fs sourcePath targetPath)
      else move_to fs sourcePath targetPath)"




text \<open>
  \<^verbatim>\<open>deleteFile\<close>. Besides its result and the new file system it returns the calls that
  remove something, in the order in which it made them, whether they succeeded or not.
\<close>

datatype syscall = Unlink path | Rmdir path | Rm path

definition remove_parent :: "filesystem \<Rightarrow> path \<Rightarrow> filesystem \<times> syscall list" where
  "remove_parent fs parentDir =
     (case readdir fs parentDir of
        Inl err \<Rightarrow> (fs, [])
      | Inr filesInParent \<Rightarrow>
          if length filesInParent = 0
          then (case rmdir fs parentDir of
                  Inl err \<Rightarrow> (fs, [Rmdir parentDir])
                | Inr fs' \<Rightarrow> (fs', [Rmdir parentDir]))
          else (fs, []))"

definition deleteFile ::
  "filesystem \<Rightarrow> ClaudeFile \<Rightarrow> string option \<Rightarrow> (failure + unit) \<times> filesystem \<times> syscall list" where
  "deleteFile fs claudeFile choice =
     (if choice \<noteq> Some ''Delete'' then (Inl Declined, fs, [])
      else case lookup fs (path claudeFile) of
        None \<Rightarrow> (Inl (ErrorMessage ''Failed to delete file''), fs, [])
      | Some Directory \<Rightarrow>
          (case rm_rf fs (path claudeFile) of
             (Some err, fs') \<Rightarrow> (Inl (ErrorMessage ''Failed to delete file''), fs', [Rm (path claudeFile)])
           | (None, fs') \<Rightarrow> (Inr (), fs', [Rm (path claudeFile)]))
      | Some (File c) \<Rightarrow>
          (case unlink fs (path claudeFile) of
             Inl err \<Rightarrow> (Inl (ErrorMessage ''Failed to delete file''), fs, [Unlink (path claudeFile)])
           | Inr fs1 \<Rightarrow>
               (let parentDir = dirname (path claudeFile);
                    parentDirName = basename (dirname parentDir)
                in if parentDirName \<in> set [''skills'', ''agents'', ''commands'']
                   then (case remove_parent fs1 parentDir of
                           (fs2, calls) \<Rightarrow> (Inr (), fs2, Unlink (path claudeFile) # calls))
                   else (Inr (), fs1, [Unlink (path claudeFile)]))))"




section \<open>All mutations\<close>




section \<open>Notions used in the statements about hooks\<close>

text \<open>
  The hook addressed by an event type, a matcher index and a hook index in a settings
  document: what \<^verbatim>\<open>settings.hooks[eventType][matcherIndex].hooks[hookIndex]\<close> reads, an
  index reading an array element (or, as JavaScript has it, the property of an object
  whose key is the numeral). \<open>None\<close> when there is no such value.
\<close>

definition hook_at :: "json \<Rightarrow> HookEventType \<Rightarrow> nat \<Rightarrow> nat \<Rightarrow> json option" where
  "hook_at settings t mi hi =
     (case do {
             hs \<leftarrow> member (Some settings) ''hooks'';
             arr \<leftarrow> member hs (event_name t);
             m \<leftarrow> element arr mi;
             l \<leftarrow> member m ''hooks'';
             element l hi
           } of
        Some (Some x) \<Rightarrow> Some x
      | _ \<Rightarrow> None)"

text \<open>The same in the settings file \<open>p\<close>, as a fresh read finds it.\<close>

definition addressed_hook ::
  "filesystem \<Rightarrow> path \<Rightarrow> HookEventType \<Rightarrow> nat \<Rightarrow> nat \<Rightarrow> json option" where
  "addressed_hook fs p t mi hi =
     (if fileExists fs p
      then (case read_json fs p of None \<Rightarrow> None | Some settings \<Rightarrow> hook_at settings t mi hi)
      else None)"


text \<open>The value of the key \<^verbatim>\<open>hooks\<close> of a document, and below it that of an event type.\<close>

fun hooks_member :: "json \<Rightarrow> json option" where
  "hooks_member (JObj kvs) = map_of kvs ''hooks''"
| "hooks_member v = None"

definition event_array :: "json \<Rightarrow> HookEventType \<Rightarrow> json option" where
  "event_array d t =
     (case hooks_member d of Some (JObj evs) \<Rightarrow> map_of evs (event_name t) | _ \<Rightarrow> None)"

text \<open>The hooks list of a matcher entry.\<close>

fun entry_hooks :: "json \<Rightarrow> json option" where
  "entry_hooks (JObj kvs) = map_of kvs ''hooks''"
| "entry_hooks v = None"

text \<open>
  The document that \<^verbatim>\<open>addHook\<close> starts from: the content of the settings file, or the
  empty object when there is no such file.
\<close>

definition settings_before :: "filesystem \<Rightarrow> path \<Rightarrow> json option" where
  "settings_before fs p = (if fileExists fs p then read_json fs p else Some (JObj []))"

text \<open>
  A settings document of the expected outer shape: an object whose key \<^verbatim>\<open>hooks\<close> is
  absent, falsy (then \<^verbatim>\<open>addHook\<close> replaces it) or an object that is not an array.
\<close>

definition settings_shaped :: "json \<Rightarrow> bool" where
  "settings_shaped d =
     (case d of
        JObj kvs \<Rightarrow> (case or_default (map_of kvs ''hooks'') (JObj []) of JObj evs \<Rightarrow> True | _ \<Rightarrow> False)
      | _ \<Rightarrow> False)"

text \<open>No array below \<^verbatim>\<open>hooks\<close> has a \<^verbatim>\<open>null\<close> among its matcher entries.\<close>

definition no_null_entry :: "json \<Rightarrow> bool" where
  "no_null_entry d =
     (case hooks_member d of
        Some (JObj evs) \<Rightarrow>
          list_all (\<lambda>(t, v). case v of JArr ms \<Rightarrow> JNull \<notin> set ms | _ \<Rightarrow> True) evs
      | _ \<Rightarrow> True)"

section \<open>Notions used in the statement about failed mutations\<close>









section \<open>Notions used in the statement about the other keys of a settings file\<close>

text \<open>
  The JSON text of the settings file \<open>p\<close>, and the one from which \<^verbatim>\<open>addHook\<close> starts: that
  of the empty object when there is no such file.
\<close>

definition file_json :: "filesystem \<Rightarrow> path \<Rightarrow> json option" where
  "file_json fs p = (case lookup fs p of Some (File (Doc j)) \<Rightarrow> Some j | _ \<Rightarrow> None)"



section \<open>Notions used in the statements about addHook\<close>

text \<open>
  The index of the first entry of an array whose \<^verbatim>\<open>matcher\<close> is the string \<open>k\<close> (the length
  of the array when there is none), a new matcher entry, and an entry with one more hook
  at the end of its list.
\<close>

definition matcher_index :: "string \<Rightarrow> json list \<Rightarrow> nat" where
  "matcher_index k ms = length (takeWhile (\<lambda>m. \<not> matcher_is k m) ms)"

definition new_entry :: "string \<Rightarrow> json list \<Rightarrow> json" where
  "new_entry k hs = JObj [(''matcher'', JStr k), (''hooks'', JArr hs)]"

fun append_hook :: "json \<Rightarrow> json \<Rightarrow> json" where
  "append_hook x (JObj mk) =
     (case map_of mk ''hooks'' of
        Some (JArr hl) \<Rightarrow> JObj (AList.update ''hooks'' (JArr (hl @ [x])) mk)
      | _ \<Rightarrow> JObj mk)"
| "append_hook x v = v"

text \<open>The array of an event type from which \<^verbatim>\<open>addHook\<close> starts: empty when it is absent.\<close>

definition event_entries :: "json \<Rightarrow> HookEventType \<Rightarrow> json" where
  "event_entries d t = or_default (event_array d t) (JArr [])"

section \<open>Example inputs\<close>

text \<open>
  A global directory \<^verbatim>\<open>/home/.claude\<close> with a settings file that has another key and one
  hook under \<^verbatim>\<open>Stop\<close>, and an open workspace folder \<^verbatim>\<open>/w\<close>.
\<close>

definition example_env :: env where
  "example_env = \<lparr>globalClaudePath = [''home'', ''.claude''], workspaceFolder = Some [''w'']\<rparr>"

definition example_hook :: Hook where
  "example_hook = \<lparr>hook_type = Command, command = Some ''ls'', prompt = None, timeout = None\<rparr>"

definition other_hook :: Hook where
  "other_hook = \<lparr>hook_type = Prompt, command = None, prompt = Some ''check'', timeout = Some 5\<rparr>"

definition example_settings :: json where
  "example_settings =
     JObj [(''model'', JStr ''opus''),
           (''hooks'', JObj [(''Stop'',
              JArr [JObj [(''matcher'', JStr ''*''), (''hooks'', JArr [hook_json example_hook])]])])]"

definition settings_path :: path where
  "settings_path = [''home'', ''.claude'', ''settings.json'']"

definition fs_with :: "content \<Rightarrow> filesystem" where
  "fs_with c =
     \<lparr>nodes = [([''home''], Directory), ([''home'', ''.claude''], Directory),
               (settings_path, File c)],
      locked = [], no_space = []\<rparr>"

definition example_fs :: filesystem where
  "example_fs = fs_with (Doc example_settings)"

text \<open>The same directories before any settings file has been written.\<close>

definition fresh_fs :: filesystem where
  "fresh_fs = \<lparr>nodes = [([''home''], Directory)], locked = [], no_space = []\<rparr>"






section \<open>Facts about the JavaScript operations and the file system\<close>

lemma modify_member_Some:
  "modify_member v k f = Some v' \<longleftrightarrow>
     (\<exists>kvs x x'. v = JObj kvs \<and> map_of kvs k = Some x \<and> f x = Some x'
        \<and> v' = JObj (AList.update k x' kvs))"
  by (cases v) (auto split: option.splits)

lemma modify_element_Some:
  "modify_element v i f = Some v' \<longleftrightarrow>
     (\<exists>xs x'. v = JArr xs \<and> i < length xs \<and> f (xs ! i) = Some x' \<and> v' = JArr (xs[i := x']))
     \<or> (\<exists>kvs x x'. v = JObj kvs \<and> map_of kvs (index_key i) = Some x \<and> f x = Some x'
           \<and> v' = JObj (AList.update (index_key i) x' kvs))"
  by (cases v) (auto split: option.splits)

lemma splice_Some: "splice_one i v = Some v' \<longleftrightarrow> (\<exists>xs. v = JArr xs \<and> v' = JArr (remove_nth i xs))"
  by (cases v) auto

lemma push_Some: "push x v = Some v' \<longleftrightarrow> (\<exists>xs. v = JArr xs \<and> v' = JArr (xs @ [x]))"
  by (cases v) auto

lemma member_Some_Some:
  "member v k = Some (Some x) \<longleftrightarrow> (\<exists>kvs. v = Some (JObj kvs) \<and> map_of kvs k = Some x)"
  by (cases "(v, k)" rule: member.cases) auto

lemma truthy_Some: "truthy v \<Longrightarrow> \<exists>x. v = Some x \<and> x \<noteq> JNull"
  by (cases v rule: truthy.cases) auto



subsection \<open>Doubles and parsed documents\<close>

lemma excess_zero: "a < 2 ^ 53 \<Longrightarrow> excess a = 0"
  by (simp add: excess.simps)

lemma excess_Suc: "\<not> a < 2 ^ 53 \<Longrightarrow> excess a = Suc (excess (a div 2))"
  by (subst excess.simps) simp

lemma excess_scaled:
  assumes "2 ^ 52 \<le> m" and "m < 2 ^ 53"
  shows "excess (m * 2 ^ e) = e"
proof (induction e)
  case 0
  with assms show ?case by (simp add: excess_zero)
next
  case (Suc e)
  have "(2::nat) ^ 52 * 2 \<le> m * 2 ^ Suc e"
    using assms(1) by (intro mult_le_mono) simp_all
  then have "\<not> m * 2 ^ Suc e < 2 ^ 53" by simp
  then have "excess (m * 2 ^ Suc e) = Suc (excess (m * 2 ^ Suc e div 2))"
    by (rule excess_Suc)
  with Suc show ?case by simp
qed

lemma excess_bounds:
  "a div 2 ^ excess a < 2 ^ 53 \<and> (0 < excess a \<longrightarrow> 2 ^ 52 \<le> a div 2 ^ excess a)"
proof (induction a rule: excess.induct)
  case (1 a)
  show ?case
  proof (cases "a < 2 ^ 53")
    case True
    then show ?thesis by (simp add: excess_zero)
  next
    case False
    note e = excess_Suc [OF False]
    have d: "a div 2 ^ Suc (excess (a div 2)) = a div 2 div 2 ^ excess (a div 2)"
      by (simp add: div_mult2_eq)
    from 1 [OF False] have ih: "a div 2 div 2 ^ excess (a div 2) < 2 ^ 53"
      "0 < excess (a div 2) \<Longrightarrow> 2 ^ 52 \<le> a div 2 div 2 ^ excess (a div 2)"
      by simp_all
    have "2 ^ 52 \<le> a div 2 div 2 ^ excess (a div 2)"
    proof (cases "0 < excess (a div 2)")
      case True
      then show ?thesis by (rule ih(2))
    next
      case False
      then have z: "excess (a div 2) = 0" by simp
      have "a div 2 < 2 ^ 53 \<or> \<not> a div 2 < 2 ^ 53" by blast
      then have "a div 2 < 2 ^ 53"
        using z excess_Suc [of "a div 2"] by auto
      moreover have "2 ^ 52 \<le> a div 2" using \<open>\<not> a < 2 ^ 53\<close> by simp
      ultimately show ?thesis using z by simp
    qed
    with ih(1) show ?thesis unfolding e d by simp
  qed
qed

lemma round_nat_scaled:
  assumes "2 ^ 52 \<le> m" and "m < 2 ^ 53"
  shows "round_nat (m * 2 ^ e) = m * 2 ^ e"
proof -
  have "excess (m * 2 ^ e) = e"
    using assms by (rule excess_scaled)
  then show ?thesis
    by (simp add: round_nat_def Let_def)
qed

lemma round_nat_0: "round_nat 0 = 0"
  by (simp add: round_nat_def excess_zero)

lemma round_nat_idem: "round_nat (round_nat a) = round_nat a"
proof (cases "excess a = 0")
  case True
  then have "round_nat a = a" by (simp add: round_nat_def Let_def)
  then show ?thesis by simp
next
  case False
  define e where "e = excess a"
  define q where "q = a div 2 ^ e"
  from False excess_bounds [of a] have q: "2 ^ 52 \<le> q" "q < 2 ^ 53"
    by (simp_all add: q_def e_def)
  have "round_nat a = q * 2 ^ e \<or> round_nat a = (q + 1) * 2 ^ e"
    using False by (simp add: round_nat_def Let_def q_def e_def)
  moreover have "round_nat (q * 2 ^ e) = q * 2 ^ e"
    using q by (rule round_nat_scaled)
  moreover have "round_nat ((q + 1) * 2 ^ e) = (q + 1) * 2 ^ e"
  proof (cases "q + 1 < 2 ^ 53")
    case True
    with q(1) show ?thesis by (intro round_nat_scaled) simp_all
  next
    case False
    with q(2) have "q + 1 = 2 ^ 53" by simp
    then have "(q + 1) * 2 ^ e = 2 ^ 52 * 2 ^ Suc e" by simp
    moreover have "round_nat (2 ^ 52 * 2 ^ Suc e) = 2 ^ 52 * 2 ^ Suc e"
      by (rule round_nat_scaled) simp_all
    ultimately show ?thesis by simp
  qed
  ultimately show ?thesis by auto
qed

lemma to_double_idem: "to_double (to_double n) = to_double n"
  by (simp add: to_double_def round_nat_idem round_nat_0)

lemma to_double_small: "\<bar>n\<bar> < 2 ^ 53 \<Longrightarrow> to_double n = n"
  by (auto simp: to_double_def round_nat_def Let_def excess_zero)

lemma JSON_parse_idem: "JSON_parse (JSON_parse d) = JSON_parse d"
  by (induction d) (auto simp: to_double_idem)

lemma parsed_JArr: "JSON_parse (JArr xs) = JArr xs \<longleftrightarrow> (\<forall>x \<in> set xs. JSON_parse x = x)"
  by (induction xs) auto

lemma parsed_JObj:
  "JSON_parse (JObj kvs) = JObj kvs \<longleftrightarrow> (\<forall>kv \<in> set kvs. JSON_parse (snd kv) = snd kv)"
  by (induction kvs) (auto simp: map_prod_def split: prod.splits)

lemma set_update_subset: "set (AList.update k v kvs) \<subseteq> insert (k, v) (set kvs)"
  by (induction kvs) auto

lemma set_delete_subset: "set (AList.delete k kvs) \<subseteq> set kvs"
  by (induction kvs) auto

lemma parsed_update:
  "JSON_parse (JObj kvs) = JObj kvs \<Longrightarrow> JSON_parse v = v
    \<Longrightarrow> JSON_parse (JObj (AList.update k v kvs)) = JObj (AList.update k v kvs)"
  unfolding parsed_JObj using set_update_subset [of k v kvs] by auto

lemma parsed_delete:
  "JSON_parse (JObj kvs) = JObj kvs
    \<Longrightarrow> JSON_parse (JObj (AList.delete k kvs)) = JObj (AList.delete k kvs)"
  unfolding parsed_JObj using set_delete_subset [of k kvs] by auto

lemma parsed_map_of:
  "JSON_parse (JObj kvs) = JObj kvs \<Longrightarrow> map_of kvs k = Some v \<Longrightarrow> JSON_parse v = v"
  unfolding parsed_JObj by (force dest: map_of_SomeD)

lemma parsed_list_update:
  "JSON_parse (JArr xs) = JArr xs \<Longrightarrow> JSON_parse v = v
    \<Longrightarrow> JSON_parse (JArr (xs[i := v])) = JArr (xs[i := v])"
  unfolding parsed_JArr using set_update_subset_insert [of xs i v] by auto

lemma parsed_nth:
  "JSON_parse (JArr xs) = JArr xs \<Longrightarrow> i < length xs \<Longrightarrow> JSON_parse (xs ! i) = xs ! i"
  unfolding parsed_JArr by auto

lemma parsed_remove_nth:
  "JSON_parse (JArr xs) = JArr xs \<Longrightarrow> JSON_parse (JArr (remove_nth i xs)) = JArr (remove_nth i xs)"
  unfolding parsed_JArr remove_nth_def by (auto dest: in_set_takeD in_set_dropD)

lemma parsed_append:
  "JSON_parse (JArr xs) = JArr xs \<Longrightarrow> JSON_parse (JArr ys) = JArr ys
    \<Longrightarrow> JSON_parse (JArr (xs @ ys)) = JArr (xs @ ys)"
  unfolding parsed_JArr by auto

lemma parsed_modify_member:
  assumes "modify_member v k f = Some v'" and "JSON_parse v = v"
    and "\<And>x x'. JSON_parse x = x \<Longrightarrow> f x = Some x' \<Longrightarrow> JSON_parse x' = x'"
  shows "JSON_parse v' = v'"
proof -
  from assms(1) obtain kvs x x' where
    v: "v = JObj kvs" "map_of kvs k = Some x" "f x = Some x'" "v' = JObj (AList.update k x' kvs)"
    unfolding modify_member_Some by blast
  from assms(2) v(1,2) have "JSON_parse x = x"
    using parsed_map_of by blast
  with assms(3) v(3) have "JSON_parse x' = x'" by blast
  with assms(2) v(1,4) show ?thesis
    using parsed_update by blast
qed

lemma parsed_modify_element:
  assumes "modify_element v i f = Some v'" and "JSON_parse v = v"
    and "\<And>x x'. JSON_parse x = x \<Longrightarrow> f x = Some x' \<Longrightarrow> JSON_parse x' = x'"
  shows "JSON_parse v' = v'"
  using assms(1) unfolding modify_element_Some
proof (elim disjE exE conjE)
  fix xs x'
  assume v: "v = JArr xs" "i < length xs" "f (xs ! i) = Some x'" "v' = JArr (xs[i := x'])"
  from assms(2) v(1,2) have "JSON_parse (xs ! i) = xs ! i"
    using parsed_nth by blast
  with assms(3) v(3) have "JSON_parse x' = x'" by blast
  with assms(2) v(1,4) show ?thesis
    using parsed_list_update by blast
next
  fix kvs x x'
  assume v: "v = JObj kvs" "map_of kvs (index_key i) = Some x" "f x = Some x'"
    "v' = JObj (AList.update (index_key i) x' kvs)"
  from assms(2) v(1,2) have "JSON_parse x = x"
    using parsed_map_of by blast
  with assms(3) v(3) have "JSON_parse x' = x'" by blast
  with assms(2) v(1,4) show ?thesis
    using parsed_update by blast
qed

lemma parsed_splice:
  "splice_one i v = Some v' \<Longrightarrow> JSON_parse v = v \<Longrightarrow> JSON_parse v' = v'"
  unfolding splice_Some using parsed_remove_nth by blast

lemma parsed_push:
  "push x v = Some v' \<Longrightarrow> JSON_parse x = x \<Longrightarrow> JSON_parse v = v \<Longrightarrow> JSON_parse v' = v'"
  unfolding push_Some using parsed_append [of _ "[x]"] by auto


lemma parsed_delete_member:
  "delete_member k v = Some v' \<Longrightarrow> JSON_parse v = v \<Longrightarrow> JSON_parse v' = v'"
  using parsed_delete by (cases v) auto

lemma parsed_hook_json: "JSON_parse (hook_json h) = hook_json h"
  by (cases "command h"; cases "prompt h"; cases "timeout h")
     (simp_all add: hook_json_def to_double_idem)

lemma parsed_on_event:
  assumes "on_event t f d = Some d'" and "JSON_parse d = d"
    and "\<And>x x'. JSON_parse x = x \<Longrightarrow> f x = Some x' \<Longrightarrow> JSON_parse x' = x'"
  shows "JSON_parse d' = d'"
  using assms(1,2) unfolding on_event_def
proof (rule parsed_modify_member)
  fix x x'
  assume "JSON_parse x = x" and "modify_member x (event_name t) f = Some x'"
  from this(2,1) show "JSON_parse x' = x'"
    by (rule parsed_modify_member) (fact assms(3))
qed

lemma parsed_on_hooks:
  assumes "on_hooks t mi f d = Some d'" and "JSON_parse d = d"
    and "\<And>x x'. JSON_parse x = x \<Longrightarrow> f x = Some x' \<Longrightarrow> JSON_parse x' = x'"
  shows "JSON_parse d' = d'"
  using assms(1,2) unfolding on_hooks_def
proof (rule parsed_on_event)
  fix x x'
  assume "JSON_parse x = x"
    and "modify_element x mi (\<lambda>m. modify_member m ''hooks'' f) = Some x'"
  from this(2,1) show "JSON_parse x' = x'"
  proof (rule parsed_modify_element)
    fix y y'
    assume "JSON_parse y = y" and "modify_member y ''hooks'' f = Some y'"
    from this(2,1) show "JSON_parse y' = y'"
      by (rule parsed_modify_member) (fact assms(3))
  qed
qed


lemma parsed_deleteHook_doc:
  assumes "deleteHook_doc t mi hi d = Some d'" and "JSON_parse d = d"
  shows "JSON_parse d' = d'"
proof -
  from assms(1) obtain s1 e1 s2 e2 s3 e3 where
    s1: "on_hooks t mi (splice_one hi) d = Some s1"
    and s2: "(if e1 then on_event t (splice_one mi) s1 else Some s1) = Some s2"
    and s3: "(if e2 then modify_member s2 ''hooks'' (delete_member (event_name t)) else Some s2)
             = Some s3"
    and d': "(if e3 then delete_member ''hooks'' s3 else Some s3) = Some d'"
    by (auto simp: deleteHook_doc_def split: Option.bind_splits)
  from s1 assms(2) have "JSON_parse s1 = s1"
    by (rule parsed_on_hooks) (rule parsed_splice)
  with s2 have "JSON_parse s2 = s2"
    by (cases e1) (auto elim: parsed_on_event intro: parsed_splice)
  with s3 have "JSON_parse s3 = s3"
    by (cases e2) (auto elim: parsed_modify_member intro: parsed_delete_member)
  with d' show ?thesis
    by (cases e3) (auto intro: parsed_delete_member)
qed

lemma parsed_add_to_matchers:
  assumes "add_to_matchers k x arr = Some arr'" and "JSON_parse x = x" and "JSON_parse arr = arr"
  shows "JSON_parse arr' = arr'"
proof -
  from assms(1) obtain ms where ms: "arr = JArr ms"
    by (cases arr) (auto simp: add_to_matchers_def)
  have n: "JSON_parse (JArr [JObj [(''matcher'', JStr k), (''hooks'', JArr [x])]])
      = JArr [JObj [(''matcher'', JStr k), (''hooks'', JArr [x])]]"
    using assms(2) by simp
  show ?thesis
  proof (cases "find_matcher k ms")
    case None
    with assms(1) ms show ?thesis by (simp add: add_to_matchers_def)
  next
    case (Some r)
    show ?thesis
    proof (cases r)
      case None
      with Some assms(1) ms have "arr' = JArr (ms @ [JObj [(''matcher'', JStr k), (''hooks'', JArr [x])]])"
        by (simp add: add_to_matchers_def)
      with assms(3) ms n show ?thesis
        using parsed_append by blast
    next
      case (Some i)
      with \<open>find_matcher k ms = Some r\<close> assms(1) ms
      have "modify_element (JArr ms) i (\<lambda>entry. modify_member entry ''hooks'' (push x)) = Some arr'"
        by (simp add: add_to_matchers_def)
      then show ?thesis
        using assms(3) [unfolded ms]
      proof (rule parsed_modify_element)
        fix y y'
        assume "JSON_parse y = y" and "modify_member y ''hooks'' (push x) = Some y'"
        from this(2,1) show "JSON_parse y' = y'"
          by (rule parsed_modify_member) (rule parsed_push [OF _ assms(2)])
      qed
    qed
  qed
qed

lemma parsed_or_default:
  "(\<And>x. v = Some x \<Longrightarrow> JSON_parse x = x) \<Longrightarrow> JSON_parse d = d
    \<Longrightarrow> JSON_parse (or_default v d) = or_default v d"
  by (auto simp: or_default_def split: option.splits)

lemma parsed_addHook_doc:
  assumes "addHook_doc t k h d = Some d'" and "JSON_parse d = d"
  shows "JSON_parse d' = d'"
proof (cases d)
  case (JObj kvs)
  define hs where "hs = or_default (map_of kvs ''hooks'') (JObj [])"
  have phs: "JSON_parse hs = hs"
    unfolding hs_def using assms(2) JObj parsed_map_of
    by (intro parsed_or_default) auto
  show ?thesis
  proof (cases hs)
    case (JObj evs)
    define arr where "arr = or_default (map_of evs (event_name t)) (JArr [])"
    have "JSON_parse arr = arr"
      unfolding arr_def using phs JObj parsed_map_of
      by (intro parsed_or_default) auto
    moreover from assms(1) \<open>d = JObj kvs\<close> JObj obtain arr' where
      a: "add_to_matchers k (hook_json h) arr = Some arr'"
      and d': "d' = JObj (AList.update ''hooks'' (JObj (AList.update (event_name t) arr' evs)) kvs)"
      by (auto simp: addHook_doc_def Let_def hs_def [symmetric] arr_def [symmetric])
    ultimately have "JSON_parse arr' = arr'"
      using parsed_add_to_matchers parsed_hook_json by blast
    with phs JObj have "JSON_parse (JObj (AList.update (event_name t) arr' evs))
        = JObj (AList.update (event_name t) arr' evs)"
      using parsed_update by blast
    with assms(2) \<open>d = JObj kvs\<close> d' show ?thesis
      using parsed_update by blast
  qed (use assms \<open>d = JObj kvs\<close> in \<open>auto simp: addHook_doc_def Let_def hs_def [symmetric]\<close>)
qed (use assms in \<open>auto simp: addHook_doc_def\<close>)

subsection \<open>Writing a file\<close>

lemma writeFile_success:
  assumes "writeFile fs p c = (None, fs')"
  shows "fs' = fs\<lparr>nodes := AList.update p (File c) (nodes fs)\<rparr>"
    and "writable fs p" and "p \<notin> set (no_space fs)" and "lookup fs p \<noteq> Some Directory"
  using assms
  by (auto simp: writeFile_def open_and_write_def
      split: option.splits node.splits if_splits)

lemma writeFile_read:
  assumes "writeFile fs p c = (None, fs')"
  shows "readFile fs' p = Inr c" and "fileExists fs' p" and "locked fs' = locked fs"
    and "no_space fs' = no_space fs"
  using assms
  by (auto simp: writeFile_def open_and_write_def readFile_def fileExists_def lookup_def
      update_conv' split: option.splits node.splits if_splits)

lemma writeFile_read_json:
  assumes "writeFile fs p (Doc d) = (None, fs')"
  shows "file_json fs' p = Some d" and "read_json fs' p = Some (JSON_parse d)"
  using writeFile_read [OF assms]
  by (auto simp: read_json_def file_json_def readFile_def split: option.splits node.splits)

lemma writeFile_again:
  assumes "writeFile fs p c = (None, fs')"
  shows "writeFile fs' p c' = (None, fs'\<lparr>nodes := AList.update p (File c') (nodes fs')\<rparr>)"
proof -
  from writeFile_read [OF assms] writeFile_success [OF assms]
  have "lookup fs' p = Some (File c)" "writable fs' p" "p \<notin> set (no_space fs')"
    by (auto simp: readFile_def writable_def split: option.splits node.splits)
  then show ?thesis
    by (simp add: writeFile_def open_and_write_def)
qed

lemma read_json_parsed: "read_json fs p = Some d \<Longrightarrow> JSON_parse d = d"
  by (auto simp: read_json_def JSON_parse_idem split: sum.splits content.splits)



lemma parsed_example_settings: "JSON_parse example_settings = example_settings"
  by (simp add: example_settings_def parsed_hook_json)

lemmas example_defs =
  example_env_def example_fs_def fs_with_def settings_path_def example_settings_def
  example_hook_def other_hook_def hook_json_def to_double_small

lemmas fs_defs =
  fileExists_def directoryExists_def pathExists_def lookup_def readFile_def read_json_def
  writeFile_def open_and_write_def writable_def dirname_def basename_def NAME_MAX_def
  parsed_hook_json parsed_example_settings

lemmas hooks_defs =
  addHook_def addHook_doc_def add_to_matchers_def or_default_def getSettingsPath_def
  updateHook_def deleteHook_def edit_hooks_def hook_found_def updateHook_doc_def
  deleteHook_doc_def on_hooks_def on_event_def matcher_hooks_empty_def event_empty_def
  hooks_empty_def remove_nth_def

lemma read_json_fs_with: "read_json (fs_with (Doc c)) settings_path = Some (JSON_parse c)"
  by (simp add: fs_with_def settings_path_def read_json_def readFile_def lookup_def)

lemma read_json_example_fs: "read_json example_fs settings_path = Some example_settings"
  by (simp add: example_fs_def read_json_fs_with parsed_example_settings)

section \<open>Properties of the permission parser\<close>

lemma takeWhile_word_delim:
  assumes "list_all word_char w" and "\<not> word_char d"
  shows "takeWhile word_char (w @ d # r) = w" and "dropWhile word_char (w @ d # r) = d # r"
  using assms by (induction w) auto

lemma delim_not_word: "\<not> word_char CHR ''(''" "\<not> word_char CHR '':''"
  by (simp_all add: word_char_def)

lemma regex_match_split:
  assumes "w \<noteq> []" and "list_all word_char w" and "d = CHR ''('' \<or> d = CHR '':''"
  shows "regex_match (w @ d # r) =
           (let body = (if r \<noteq> [] \<and> last r = CHR '')'' then butlast r else r)
            in if list_ex line_terminator body then None else Some (w, body))"
proof -
  from assms(3) have nd: "\<not> word_char d"
    using delim_not_word by auto
  show ?thesis
    unfolding regex_match_def
    using assms(1,3) by (auto simp: takeWhile_word_delim [OF assms(2) nd] Let_def)
qed

lemma regex_match_None_no_delim:
  assumes "CHR ''('' \<notin> set s" and "CHR '':'' \<notin> set s"
  shows "regex_match s = None"
proof (cases "dropWhile word_char s")
  case Nil
  then show ?thesis by (simp add: regex_match_def Let_def del: dropWhile_eq_Nil_conv)
next
  case (Cons d rest)
  then have "d \<in> set s"
    by (metis list.set_intros(1) set_dropWhileD)
  with assms have "d \<noteq> CHR ''(''" "d \<noteq> CHR '':''" by auto
  with Cons show ?thesis by (simp add: regex_match_def Let_def)
qed

text \<open>Every string has one of the shapes of which the statement below speaks.\<close>

lemma pattern_shapes_cover:
  "(s = [] \<or> \<not> word_char (hd s))
   \<or> (CHR ''('' \<notin> set s \<and> CHR '':'' \<notin> set s)
   \<or> (\<exists>v c r. s = v @ c # r \<and> list_all word_char v \<and> \<not> word_char c
          \<and> c \<noteq> CHR ''('' \<and> c \<noteq> CHR '':'')
   \<or> (\<exists>w d q. s = w @ d # q \<and> w \<noteq> [] \<and> list_all word_char w
          \<and> (d = CHR ''('' \<or> d = CHR '':'')
          \<and> (list_ex line_terminator q
              \<or> (\<exists>p. q = p @ '')'' \<and> \<not> list_ex line_terminator p)
              \<or> (\<not> list_ex line_terminator q \<and> (q = [] \<or> last q \<noteq> CHR '')''))))"
proof (cases "dropWhile word_char s")
  case Nil
  then have "list_all word_char s"
    by (simp add: list_all_iff)
  then have "CHR ''('' \<notin> set s \<and> CHR '':'' \<notin> set s"
    using delim_not_word by (auto simp: list_all_iff)
  then show ?thesis by blast
next
  case (Cons c r)
  define w where "w = takeWhile word_char s"
  have s: "s = w @ c # r"
    unfolding w_def Cons [symmetric] by simp
  have w: "list_all word_char w"
    unfolding w_def by (simp add: list_all_iff) (meson set_takeWhileD)
  have c: "\<not> word_char c"
    using Cons by (metis hd_dropWhile list.distinct(1) list.sel(1))
  show ?thesis
  proof (cases "w = []")
    case True
    with s c show ?thesis by simp
  next
    case False
    show ?thesis
    proof (cases "c = CHR ''('' \<or> c = CHR '':''")
      case no: False
      with s w c show ?thesis by blast
    next
      case True
      have "list_ex line_terminator r
          \<or> (\<exists>p. r = p @ '')'' \<and> \<not> list_ex line_terminator p)
          \<or> (\<not> list_ex line_terminator r \<and> (r = [] \<or> last r \<noteq> CHR '')''))"
        by (cases r rule: rev_cases) auto
      with s w False True show ?thesis by blast
    qed
  qed
qed

text \<open>
  C4 (amended). Let \<open>w\<close> be a non-empty run of word characters and \<open>p\<close> a text without line
  terminators. \<^verbatim>\<open>w(p)\<close> parses to \<open>(w, p)\<close> when \<open>p\<close> is not empty; \<^verbatim>\<open>w:p\<close> parses to
  \<open>(w, p)\<close> when \<open>p\<close> is not empty and does not end in a closing parenthesis. In general
  whatever follows the delimiter loses one closing parenthesis at its end, and an empty
  remainder is replaced by \<^verbatim>\<open>*\<close>, so a missing closing parenthesis is accepted. Every
  string without a delimiter, every string that does not begin with a word character
  (also one that begins with a delimiter, as \<^verbatim>\<open>(rm)\<close>), every string in which the
  leading run of word characters is followed by something else than a delimiter, and
  every string with a line terminator after the delimiter parses to the whole string with
  pattern \<^verbatim>\<open>*\<close>. These cases cover every string. The parser is a total function: it
  never throws.
\<close>

theorem parsePermissionPattern_shapes:
  "(w \<noteq> [] \<and> list_all word_char w \<and> p \<noteq> [] \<and> \<not> list_ex line_terminator p \<longrightarrow>
      parsePermissionPattern (w @ ''('' @ p @ '')'') = \<lparr>tool = w, pattern = p\<rparr>)
   \<and> (w \<noteq> [] \<and> list_all word_char w \<and> p \<noteq> [] \<and> \<not> list_ex line_terminator p
        \<and> last p \<noteq> CHR '')'' \<longrightarrow>
      parsePermissionPattern (w @ '':'' @ p) = \<lparr>tool = w, pattern = p\<rparr>)
   \<and> (w \<noteq> [] \<and> list_all word_char w \<and> (d = CHR ''('' \<or> d = CHR '':'')
        \<and> \<not> list_ex line_terminator p \<longrightarrow>
      parsePermissionPattern (w @ d # p @ '')'') =
        \<lparr>tool = w, pattern = (if p = [] then ''*'' else p)\<rparr>
      \<and> (p = [] \<or> last p \<noteq> CHR '')'' \<longrightarrow>
         parsePermissionPattern (w @ d # p) =
           \<lparr>tool = w, pattern = (if p = [] then ''*'' else p)\<rparr>))
   \<and> (CHR ''('' \<notin> set s \<and> CHR '':'' \<notin> set s \<longrightarrow>
      parsePermissionPattern s = \<lparr>tool = s, pattern = ''*''\<rparr>)
   \<and> (list_all word_char v \<and> \<not> word_char c \<and> c \<noteq> CHR ''('' \<and> c \<noteq> CHR '':'' \<longrightarrow>
      parsePermissionPattern (v @ c # r) = \<lparr>tool = v @ c # r, pattern = ''*''\<rparr>)
   \<and> (w \<noteq> [] \<and> list_all word_char w \<and> (d = CHR ''('' \<or> d = CHR '':'')
        \<and> list_ex line_terminator q \<longrightarrow>
      parsePermissionPattern (w @ d # q) = \<lparr>tool = w @ d # q, pattern = ''*''\<rparr>)
   \<and> (u = [] \<or> \<not> word_char (hd u) \<longrightarrow>
      parsePermissionPattern u = \<lparr>tool = u, pattern = ''*''\<rparr>)"
proof (intro conjI impI)
  assume a: "w \<noteq> [] \<and> list_all word_char w \<and> p \<noteq> [] \<and> \<not> list_ex line_terminator p"
  then have "regex_match (w @ CHR ''('' # (p @ '')'')) = Some (w, p)"
    by (subst regex_match_split) (auto simp: Let_def)
  with a show "parsePermissionPattern (w @ ''('' @ p @ '')'') = \<lparr>tool = w, pattern = p\<rparr>"
    by (simp add: parsePermissionPattern_def)
next
  assume a: "w \<noteq> [] \<and> list_all word_char w \<and> p \<noteq> [] \<and> \<not> list_ex line_terminator p
    \<and> last p \<noteq> CHR '')''"
  then have "regex_match (w @ CHR '':'' # p) = Some (w, p)"
    by (subst regex_match_split) (auto simp: Let_def)
  with a show "parsePermissionPattern (w @ '':'' @ p) = \<lparr>tool = w, pattern = p\<rparr>"
    by (simp add: parsePermissionPattern_def)
next
  assume a: "w \<noteq> [] \<and> list_all word_char w \<and> (d = CHR ''('' \<or> d = CHR '':'')
    \<and> \<not> list_ex line_terminator p"
  then have "regex_match (w @ d # (p @ '')'')) = Some (w, p)"
    by (subst regex_match_split) (auto simp: Let_def)
  then show "parsePermissionPattern (w @ d # p @ '')'') =
      \<lparr>tool = w, pattern = (if p = [] then ''*'' else p)\<rparr>"
    by (simp add: parsePermissionPattern_def)
next
  assume a: "w \<noteq> [] \<and> list_all word_char w \<and> (d = CHR ''('' \<or> d = CHR '':'')
    \<and> \<not> list_ex line_terminator p"
  assume b: "p = [] \<or> last p \<noteq> CHR '')''"
  from a b have "regex_match (w @ d # p) = Some (w, p)"
    by (subst regex_match_split) (auto simp: Let_def)
  then show "parsePermissionPattern (w @ d # p) =
      \<lparr>tool = w, pattern = (if p = [] then ''*'' else p)\<rparr>"
    by (simp add: parsePermissionPattern_def)
next
  assume "CHR ''('' \<notin> set s \<and> CHR '':'' \<notin> set s"
  then show "parsePermissionPattern s = \<lparr>tool = s, pattern = ''*''\<rparr>"
    by (simp add: parsePermissionPattern_def regex_match_None_no_delim)
next
  assume a: "list_all word_char v \<and> \<not> word_char c \<and> c \<noteq> CHR ''('' \<and> c \<noteq> CHR '':''"
  then have "regex_match (v @ c # r) = None"
    by (simp add: regex_match_def Let_def takeWhile_word_delim)
  then show "parsePermissionPattern (v @ c # r) = \<lparr>tool = v @ c # r, pattern = ''*''\<rparr>"
    by (simp add: parsePermissionPattern_def)
next
  assume a: "w \<noteq> [] \<and> list_all word_char w \<and> (d = CHR ''('' \<or> d = CHR '':'')
    \<and> list_ex line_terminator q"
  then have "list_ex line_terminator (butlast q) \<or> line_terminator (last q)"
    by (cases q rule: rev_cases) auto
  moreover have "\<not> line_terminator CHR '')''"
    by (simp add: line_terminator_def)
  ultimately have "regex_match (w @ d # q) = None"
    using a by (subst regex_match_split) (auto simp: Let_def)
  then show "parsePermissionPattern (w @ d # q) = \<lparr>tool = w @ d # q, pattern = ''*''\<rparr>"
    by (simp add: parsePermissionPattern_def)
next
  assume "u = [] \<or> \<not> word_char (hd u)"
  then have "takeWhile word_char u = []"
    by (cases u) auto
  then have "regex_match u = None"
    by (simp add: regex_match_def Let_def del: takeWhile_eq_Nil_iff)
  then show "parsePermissionPattern u = \<lparr>tool = u, pattern = ''*''\<rparr>"
    by (simp add: parsePermissionPattern_def)
qed

theorem parsePermissionPattern_shapes_witness:
  "list_all word_char ''Bash'' \<and> \<not> list_ex line_terminator ''rm -rf /''
   \<and> \<not> word_char CHR '' '' \<and> list_ex line_terminator [CHR ''a'', CHR 0x0A]
   \<and> parsePermissionPattern ''Bash(rm -rf /)'' = \<lparr>tool = ''Bash'', pattern = ''rm -rf /''\<rparr>
   \<and> parsePermissionPattern ''Bash:rm -rf /'' = \<lparr>tool = ''Bash'', pattern = ''rm -rf /''\<rparr>
   \<and> parsePermissionPattern ''Bash(rm -rf /'' = \<lparr>tool = ''Bash'', pattern = ''rm -rf /''\<rparr>
   \<and> parsePermissionPattern ''Read'' = \<lparr>tool = ''Read'', pattern = ''*''\<rparr>
   \<and> parsePermissionPattern ''Bash rm'' = \<lparr>tool = ''Bash rm'', pattern = ''*''\<rparr>
   \<and> parsePermissionPattern (''Bash('' @ [CHR ''a'', CHR 0x0A]) =
       \<lparr>tool = ''Bash('' @ [CHR ''a'', CHR 0x0A], pattern = ''*''\<rparr>
   \<and> \<not> word_char (hd ''(rm)'')
   \<and> parsePermissionPattern ''(rm)'' = \<lparr>tool = ''(rm)'', pattern = ''*''\<rparr>"
  using parsePermissionPattern_shapes
    [of "''Bash''" "''rm -rf /''" "CHR ''(''" "''Read''" "''Bash''" "CHR '' ''" "''rm''"
        "[CHR ''a'', CHR 0x0A]" "''(rm)''"]
  by (simp add: word_char_def line_terminator_def)

text \<open>
  The claim as it was written fails on a \<^verbatim>\<open>Tool:pattern\<close> string whose pattern ends in a
  closing parenthesis (the parenthesis is dropped) and on a string with an opening
  parenthesis and no closing one (it is split instead of being kept whole).
\<close>

theorem parsePermissionPattern_counterexample:
  "parsePermissionPattern ''Bash:a)'' = \<lparr>tool = ''Bash'', pattern = ''a''\<rparr>
   \<and> parsePermissionPattern ''Bash:a)'' \<noteq> \<lparr>tool = ''Bash'', pattern = ''a)''\<rparr>
   \<and> parsePermissionPattern ''Bash(rm'' = \<lparr>tool = ''Bash'', pattern = ''rm''\<rparr>
   \<and> parsePermissionPattern ''Bash(rm'' \<noteq> \<lparr>tool = ''Bash(rm'', pattern = ''*''\<rparr>"
  by (simp add: parsePermissionPattern_def regex_match_def word_char_def line_terminator_def)

section \<open>The calls of the file system on examples\<close>



text \<open>\<^verbatim>\<open>path.join\<close> resolves \<^verbatim>\<open>..\<close> and drops \<^verbatim>\<open>.\<close> and empty segments.\<close>

lemma path_join_examples:
  "path_join [''home'', ''.claude'', ''commands''] ''../x.md'' = [''home'', ''.claude'', ''x.md'']"
  "path_join [''home'', ''.claude''] ''git/./commit.md'' = [''home'', ''.claude'', ''git'', ''commit.md'']"
  "path_join [''home''] ''../../x'' = [''x'']"
  "path_join [''home''] ''a//b/'' = [''home'', ''a'', ''b'']"
  by (simp_all add: path_join_def join_segment_def)


text \<open>
  A directory that the process may not write cannot be moved to another parent, and a
  file that it may not write cannot be written; a write for which there is no room
  leaves the file empty.
\<close>

lemma rename_readonly_directory:
  "rename \<lparr>nodes = [([''a''], Directory), ([''a'', ''d''], Directory), ([''b''], Directory)],
           locked = [[''a'', ''d'']], no_space = []\<rparr> [''a'', ''d''] [''b'', ''d'']
   = Inl EACCES"
  by (simp add: rename_def fs_defs)

lemma writeFile_readonly_file:
  "writeFile (example_fs\<lparr>locked := [settings_path]\<rparr>) settings_path (Text ''x'')
   = (Some EACCES, example_fs\<lparr>locked := [settings_path]\<rparr>)"
  by (simp add: example_fs_def fs_with_def settings_path_def fs_defs)

lemma writeFile_no_space:
  "writeFile (example_fs\<lparr>no_space := [settings_path]\<rparr>) settings_path (Text ''x'')
   = (Some ENOSPC, fs_with (Text [])\<lparr>no_space := [settings_path]\<rparr>)"
  by (simp add: example_fs_def fs_with_def settings_path_def fs_defs)

text \<open>The answer \<^verbatim>\<open>../deploy.md\<close> to the Rename box moves the file one directory up.\<close>

lemma moveFile_rename_answer:
  "moveFile
     \<lparr>nodes = [([''w''], Directory), ([''w'', ''deploy.md''], File (Text ''run'')),
               ([''home''], Directory), ([''home'', ''commands''], Directory),
               ([''home'', ''commands'', ''deploy.md''], File (Text ''old''))],
      locked = [], no_space = []\<rparr>
     [''w'', ''deploy.md''] [''home'', ''commands'', ''deploy.md''] TargetGlobal
     (Some ''Rename'') (Some ''../deploy.md'')
   = (Inr (),
      \<lparr>nodes = [([''w''], Directory), ([''home'', ''deploy.md''], File (Text ''run'')),
                ([''home''], Directory), ([''home'', ''commands''], Directory),
                ([''home'', ''commands'', ''deploy.md''], File (Text ''old''))],
       locked = [], no_space = []\<rparr>)"
  by (simp add: moveFile_def move_to_def mkdir_p_def rename_def path_join_def join_segment_def
      fs_defs)

section \<open>Properties of memory discovery\<close>

text \<open>
  A project with a memory file at the top and three more below subdirectories, none in
  \<^verbatim>\<open>.claude\<close>: one item of project scope and three of nested scope, labelled with their
  directories relative to the workspace folder.
\<close>

lemma discoverMemories_top_level_and_nested:
  "map (\<lambda>f. (path f, scope f, scopeLabel f))
     (discoverMemories
        \<lparr>globalClaudePath = [''home'', ''.claude''], workspaceFolder = Some [''w'']\<rparr>
        \<lparr>nodes = [([''w''], Directory),
                  ([''w'', ''CLAUDE.md''], File (Text ''top'')),
                  ([''w'', ''api''], Directory),
                  ([''w'', ''api'', ''CLAUDE.md''], File (Text ''a'')),
                  ([''w'', ''web''], Directory),
                  ([''w'', ''web'', ''CLAUDE.md''], File (Text ''b'')),
                  ([''w'', ''web'', ''ui''], Directory),
                  ([''w'', ''web'', ''ui'', ''CLAUDE.md''], File (Text ''c''))],
         locked = [], no_space = []\<rparr>)
   = [([''w'', ''CLAUDE.md''], ScopeProject, ''Project Root''),
      ([''w'', ''api'', ''CLAUDE.md''], ScopeNested, ''api''),
      ([''w'', ''web'', ''CLAUDE.md''], ScopeNested, ''web''),
      ([''w'', ''web'', ''ui'', ''CLAUDE.md''], ScopeNested, ''web/ui'')]"
  by (simp add: discoverMemories_def canonical_memory_def CLAUDE_MD_PATTERNS_def
      findNestedClaudeFiles_def findFiles_def createClaudeFile_def fileExists_def lookup_def
      dirname_def basename_def)

text \<open>
  C1. In one pass of \<^verbatim>\<open>discoverMemories\<close> no two items should have the same path. The
  nested search skips only the files that lie directly in the workspace folder
  (\<^verbatim>\<open>path.dirname(uri.fsPath) === rootPath\<close>, "already handled"); the memory file of the
  \<^verbatim>\<open>.claude\<close> directory, which the third canonical loop has handled as well, is not
  skipped. In a project whose only memory file is \<^verbatim>\<open>.claude/CLAUDE.md\<close> the pass returns
  that path twice, once with project scope and once with nested scope.
\<close>

theorem discoverMemories_dot_claude_twice:
  "discoverMemories
     \<lparr>globalClaudePath = [''home'', ''.claude''], workspaceFolder = Some [''w'']\<rparr>
     \<lparr>nodes = [([''w''], Directory),
               ([''w'', ''.claude''], Directory),
               ([''w'', ''.claude'', ''CLAUDE.md''], File (Text ''notes''))],
      locked = [], no_space = []\<rparr>
   = [\<lparr>name = ''CLAUDE.md'', path = [''w'', ''.claude'', ''CLAUDE.md''], scope = ScopeProject,
       scopeLabel = ''Project .claude'', ftype = TMemory, isDirectory = None,
       parentType = None\<rparr>,
      \<lparr>name = ''CLAUDE.md'', path = [''w'', ''.claude'', ''CLAUDE.md''], scope = ScopeNested,
       scopeLabel = ''.claude'', ftype = TMemory, isDirectory = None, parentType = None\<rparr>]"
  by (simp add: discoverMemories_def canonical_memory_def CLAUDE_MD_PATTERNS_def
      findNestedClaudeFiles_def findFiles_def createClaudeFile_def fileExists_def lookup_def
      dirname_def basename_def)

section \<open>Properties of deleteFile\<close>

lemma remove_parent_calls:
  "remove_parent fs d = (fs', calls) \<Longrightarrow>
     (calls = [Rmdir d] \<and> readdir fs d = Inr [] \<and> (fs' = fs \<or> rmdir fs d = Inr fs'))
     \<or> (calls = [] \<and> readdir fs d \<noteq> Inr [] \<and> fs' = fs)"
  by (auto simp: remove_parent_def split: sum.splits if_splits)

text \<open>
  C2 (amended). When a single file is deleted and its \<^verbatim>\<open>unlink\<close> has succeeded, the
  operation reports success, and it calls \<^verbatim>\<open>rmdir\<close> on the directory of the file if and
  only if the directory that contains that directory is named \<^verbatim>\<open>skills\<close>, \<^verbatim>\<open>agents\<close> or
  \<^verbatim>\<open>commands\<close> and the directory of the file is now empty. It removes nothing else, and
  a failure of that \<^verbatim>\<open>rmdir\<close> changes neither the result nor the file system.
\<close>

theorem deleteFile_parent_removal:
  assumes "deleteFile fs f (Some ''Delete'') = (r, fs', calls)"
    and "lookup fs (path f) = Some (File c)"
    and "unlink fs (path f) = Inr fs1"
  shows "r = Inr ()
    \<and> (Rmdir (dirname (path f)) \<in> set calls \<longleftrightarrow>
         basename (dirname (dirname (path f))) \<in> {''skills'', ''agents'', ''commands''}
         \<and> readdir fs1 (dirname (path f)) = Inr [])
    \<and> set calls \<subseteq> {Unlink (path f), Rmdir (dirname (path f))}
    \<and> (fs' = fs1 \<or> rmdir fs1 (dirname (path f)) = Inr fs')"
proof (cases "basename (dirname (dirname (path f))) \<in> {''skills'', ''agents'', ''commands''}")
  case False
  with assms show ?thesis
    by (auto simp: deleteFile_def Let_def)
next
  case True
  obtain fs2 cs where rp: "remove_parent fs1 (dirname (path f)) = (fs2, cs)"
    by (cases "remove_parent fs1 (dirname (path f))")
  with assms True have res: "r = Inr ()" "fs' = fs2" "calls = Unlink (path f) # cs"
    by (auto simp: deleteFile_def Let_def)
  from remove_parent_calls [OF rp] res True show ?thesis
    by auto
qed

text \<open>
  A skill folder below a \<^verbatim>\<open>skills\<close> directory in which nothing may be removed: the file
  goes, the \<^verbatim>\<open>rmdir\<close> of the emptied folder is tried and fails, and the delete succeeds.
\<close>

theorem deleteFile_parent_removal_witness:
  "deleteFile
     \<lparr>nodes = [([''w''], Directory), ([''w'', ''skills''], Directory),
               ([''w'', ''skills'', ''pdf''], Directory),
               ([''w'', ''skills'', ''pdf'', ''SKILL.md''], File (Text ''x''))],
      locked = [[''w'', ''skills'']], no_space = []\<rparr>
     (createClaudeFile [''w'', ''skills'', ''pdf'', ''SKILL.md''] TSkill ScopeProject ''Project'' None)
     (Some ''Delete'')
   = (Inr (),
      \<lparr>nodes = [([''w''], Directory), ([''w'', ''skills''], Directory),
                ([''w'', ''skills'', ''pdf''], Directory)],
       locked = [[''w'', ''skills'']], no_space = []\<rparr>,
      [Unlink [''w'', ''skills'', ''pdf'', ''SKILL.md''], Rmdir [''w'', ''skills'', ''pdf'']])
   \<and> Rmdir [''w'', ''skills'', ''pdf''] \<in>
       set [Unlink [''w'', ''skills'', ''pdf'', ''SKILL.md''], Rmdir [''w'', ''skills'', ''pdf'']]
   \<and> rmdir \<lparr>nodes = [([''w''], Directory), ([''w'', ''skills''], Directory),
                      ([''w'', ''skills'', ''pdf''], Directory)],
             locked = [[''w'', ''skills'']], no_space = []\<rparr> [''w'', ''skills'', ''pdf''] = Inl EACCES"
proof -
  let ?fs = "\<lparr>nodes = [([''w''], Directory), ([''w'', ''skills''], Directory),
               ([''w'', ''skills'', ''pdf''], Directory),
               ([''w'', ''skills'', ''pdf'', ''SKILL.md''], File (Text ''x''))],
      locked = [[''w'', ''skills'']], no_space = []\<rparr>"
  let ?fs1 = "\<lparr>nodes = [([''w''], Directory), ([''w'', ''skills''], Directory),
               ([''w'', ''skills'', ''pdf''], Directory)],
      locked = [[''w'', ''skills'']], no_space = []\<rparr>"
  let ?f = "createClaudeFile [''w'', ''skills'', ''pdf'', ''SKILL.md''] TSkill ScopeProject
              ''Project'' None"
  have d: "deleteFile ?fs ?f (Some ''Delete'')
      = (Inr (), ?fs1,
         [Unlink [''w'', ''skills'', ''pdf'', ''SKILL.md''], Rmdir [''w'', ''skills'', ''pdf'']])"
    by (simp add: deleteFile_def remove_parent_def createClaudeFile_def lookup_def unlink_def
        rmdir_def readdir_def writable_def dirname_def basename_def Let_def)
  have l: "lookup ?fs (path ?f) = Some (File (Text ''x''))"
    by (simp add: createClaudeFile_def lookup_def)
  have u: "unlink ?fs (path ?f) = Inr ?fs1"
    by (simp add: createClaudeFile_def lookup_def unlink_def writable_def dirname_def)
  have e: "rmdir ?fs1 [''w'', ''skills'', ''pdf''] = Inl EACCES"
    by (simp add: rmdir_def lookup_def readdir_def writable_def dirname_def)
  from deleteFile_parent_removal [OF d l u] d e show ?thesis
    by (simp add: createClaudeFile_def dirname_def)
qed

text \<open>
  The claim as it was written names the directory of the file itself. A command file
  directly in \<^verbatim>\<open>commands\<close>: the directory of the file is named \<^verbatim>\<open>commands\<close> and is empty
  after the \<^verbatim>\<open>unlink\<close>, and no \<^verbatim>\<open>rmdir\<close> is tried.
\<close>

theorem deleteFile_flat_command_counterexample:
  "deleteFile
     \<lparr>nodes = [([''w''], Directory), ([''w'', ''.claude''], Directory),
               ([''w'', ''.claude'', ''commands''], Directory),
               ([''w'', ''.claude'', ''commands'', ''deploy.md''], File (Text ''x''))],
      locked = [], no_space = []\<rparr>
     (createClaudeFile [''w'', ''.claude'', ''commands'', ''deploy.md''] TCommand ScopeProject
        ''Project'' None)
     (Some ''Delete'')
   = (Inr (),
      \<lparr>nodes = [([''w''], Directory), ([''w'', ''.claude''], Directory),
                ([''w'', ''.claude'', ''commands''], Directory)],
       locked = [], no_space = []\<rparr>,
      [Unlink [''w'', ''.claude'', ''commands'', ''deploy.md'']])
   \<and> basename (dirname [''w'', ''.claude'', ''commands'', ''deploy.md'']) = ''commands''
   \<and> readdir
        \<lparr>nodes = [([''w''], Directory), ([''w'', ''.claude''], Directory),
                  ([''w'', ''.claude'', ''commands''], Directory)],
         locked = [], no_space = []\<rparr>
        (dirname [''w'', ''.claude'', ''commands'', ''deploy.md'']) = Inr []"
  by (simp add: deleteFile_def remove_parent_def createClaudeFile_def lookup_def unlink_def
      readdir_def writable_def dirname_def basename_def Let_def)

section \<open>Properties of hook discovery\<close>

text \<open>
  C8. A malformed matcher entry should be skipped alone. An entry that is \<^verbatim>\<open>null\<close> is not:
  \<^verbatim>\<open>typeof null\<close> is \<^verbatim>\<open>'object'\<close>, the next test reads \<^verbatim>\<open>null.hooks\<close>, and the exception
  lands in the \<^verbatim>\<open>catch\<close> of the whole file, which returns no hooks at all. Here the
  settings file holds
  \<^verbatim>\<open>{"hooks": {"PreToolUse": [null, {"matcher": "Bash", "hooks": [{"type": "command", "command": "ls"}]}]}}\<close>
  and the well-formed second entry is lost; with the number 5 in the place of \<^verbatim>\<open>null\<close> the
  same entry is returned.
\<close>

theorem parseHooks_null_entry_drops_file:
  "parseHooks
     \<lparr>nodes = [([''home''], Directory),
               ([''home'', ''settings.json''],
                File (Doc (JObj [(''hooks'', JObj [(''PreToolUse'',
                  JArr [JNull,
                        JObj [(''matcher'', JStr ''Bash''),
                              (''hooks'', JArr [JObj [(''type'', JStr ''command''),
                                                      (''command'', JStr ''ls'')]])]])])])))],
      locked = [], no_space = []\<rparr>
     [''home'', ''settings.json''] ''Global (~/.claude)''
   = []
   \<and> parseHooks
     \<lparr>nodes = [([''home''], Directory),
               ([''home'', ''settings.json''],
                File (Doc (JObj [(''hooks'', JObj [(''PreToolUse'',
                  JArr [JNum 5,
                        JObj [(''matcher'', JStr ''Bash''),
                              (''hooks'', JArr [JObj [(''type'', JStr ''command''),
                                                      (''command'', JStr ''ls'')]])]])])])))],
      locked = [], no_space = []\<rparr>
     [''home'', ''settings.json''] ''Global (~/.claude)''
   = [\<lparr>eventType = ''PreToolUse'',
       matchers = [\<lparr>matcher = Some (JStr ''Bash''),
                    hooks = [JObj [(''type'', JStr ''command''), (''command'', JStr ''ls'')]]\<rparr>],
       location = ''Global (~/.claude)'', configPath = [''home'', ''settings.json'']\<rparr>]"
  by (simp add: parseHooks_def parseHooks_doc_def read_json_def readFile_def lookup_def
      to_double_small)

section \<open>Stale indices\<close>

lemma hook_found_hook_at:
  "hook_found settings t mi hi = Some True \<Longrightarrow> hook_at settings t mi hi \<noteq> None"
  by (auto simp: hook_found_def hook_at_def dest!: truthy_Some
      split: Option.bind_splits if_splits option.splits)

lemma edit_hooks_stale:
  assumes "addressed_hook fs p t mi hi = None"
  shows "\<exists>msg. edit_hooks m f fs p t mi hi = (Inl (ErrorMessage msg), fs)"
proof (cases "fileExists fs p")
  case False
  then show ?thesis by (simp add: edit_hooks_def)
next
  case True
  show ?thesis
  proof (cases "read_json fs p")
    case None
    with True show ?thesis by (simp add: edit_hooks_def)
  next
    case (Some settings)
    with assms True have "hook_at settings t mi hi = None"
      by (simp add: addressed_hook_def)
    with hook_found_hook_at have "hook_found settings t mi hi \<noteq> Some True"
      by blast
    with True Some show ?thesis
      by (cases "hook_found settings t mi hi") (auto simp: edit_hooks_def)
  qed
qed

text \<open>
  C5. When the hook addressed by the event type, the matcher index and the hook index does
  not exist in the settings file as it is read at the start of the call (the file itself
  may be missing or unreadable), \<^verbatim>\<open>updateHook\<close> and \<^verbatim>\<open>deleteHook\<close> both show an error
  message, return failure and leave the file system as it was: nothing is written.
\<close>

theorem stale_index_fails_without_write:
  assumes "addressed_hook fs p t mi hi = None"
  shows "(\<exists>msg. updateHook fs p t mi hi h = (Inl (ErrorMessage msg), fs))
       \<and> (\<exists>msg. deleteHook fs p t mi hi = (Inl (ErrorMessage msg), fs))"
  using edit_hooks_stale [OF assms] by (simp add: updateHook_def deleteHook_def)

text \<open>
  A settings file with one hook under \<^verbatim>\<open>PreToolUse\<close>, addressed with the hook index 1
  that a view from before a deletion may still hold.
\<close>

theorem stale_index_fails_without_write_witness:
  "addressed_hook
     \<lparr>nodes = [([''home''], Directory),
               ([''home'', ''settings.json''],
                File (Doc (JObj [(''model'', JStr ''opus''),
                  (''hooks'', JObj [(''PreToolUse'',
                     JArr [JObj [(''matcher'', JStr ''Bash''),
                                 (''hooks'', JArr [JObj [(''type'', JStr ''command''),
                                                         (''command'', JStr ''ls'')]])]])])])))],
      locked = [], no_space = []\<rparr>
     [''home'', ''settings.json''] PreToolUse 0 1 = None
   \<and> updateHook
     \<lparr>nodes = [([''home''], Directory),
               ([''home'', ''settings.json''],
                File (Doc (JObj [(''model'', JStr ''opus''),
                  (''hooks'', JObj [(''PreToolUse'',
                     JArr [JObj [(''matcher'', JStr ''Bash''),
                                 (''hooks'', JArr [JObj [(''type'', JStr ''command''),
                                                         (''command'', JStr ''ls'')]])]])])])))],
      locked = [], no_space = []\<rparr>
     [''home'', ''settings.json''] PreToolUse 0 1
     \<lparr>hook_type = Command, command = Some ''pwd'', prompt = None, timeout = None\<rparr>
   = (Inl (ErrorMessage ''Hook not found in settings.''),
      \<lparr>nodes = [([''home''], Directory),
               ([''home'', ''settings.json''],
                File (Doc (JObj [(''model'', JStr ''opus''),
                  (''hooks'', JObj [(''PreToolUse'',
                     JArr [JObj [(''matcher'', JStr ''Bash''),
                                 (''hooks'', JArr [JObj [(''type'', JStr ''command''),
                                                         (''command'', JStr ''ls'')]])]])])])))],
      locked = [], no_space = []\<rparr>)"
proof -
  let ?fs = "\<lparr>nodes = [([''home''], Directory),
               ([''home'', ''settings.json''],
                File (Doc (JObj [(''model'', JStr ''opus''),
                  (''hooks'', JObj [(''PreToolUse'',
                     JArr [JObj [(''matcher'', JStr ''Bash''),
                                 (''hooks'', JArr [JObj [(''type'', JStr ''command''),
                                                         (''command'', JStr ''ls'')]])]])])])))],
      locked = [], no_space = []\<rparr>"
  have a: "addressed_hook ?fs [''home'', ''settings.json''] PreToolUse 0 1 = None"
    by (simp add: addressed_hook_def hook_at_def fileExists_def read_json_def readFile_def
        lookup_def)
  have "updateHook ?fs [''home'', ''settings.json''] PreToolUse 0 1
          \<lparr>hook_type = Command, command = Some ''pwd'', prompt = None, timeout = None\<rparr>
        = (Inl (ErrorMessage ''Hook not found in settings.''), ?fs)"
    using stale_index_fails_without_write [OF a, of
        "\<lparr>hook_type = Command, command = Some ''pwd'', prompt = None, timeout = None\<rparr>"]
    by (simp add: updateHook_def edit_hooks_def hook_found_def fileExists_def read_json_def
        readFile_def lookup_def)
  with a show ?thesis by blast
qed

section \<open>What a successful mutation of hooks has done\<close>






lemma edit_hooks_unfold:
  assumes "edit_hooks msg f fs p t mi hi = (Inr (), fs')"
  shows "\<exists>d d'. fileExists fs p \<and> read_json fs p = Some d \<and> hook_found d t mi hi = Some True
            \<and> f d = Some d' \<and> writeFile fs p (Doc d') = (None, fs')"
proof -
  from assms have e: "fileExists fs p"
    by (auto simp: edit_hooks_def split: if_splits)
  with assms obtain d where d: "read_json fs p = Some d"
    by (cases "read_json fs p") (auto simp: edit_hooks_def)
  with assms e have h: "hook_found d t mi hi = Some True"
    by (cases "hook_found d t mi hi") (auto simp: edit_hooks_def split: bool.splits)
  with assms e d obtain d' where d': "f d = Some d'"
    by (cases "f d") (auto simp: edit_hooks_def)
  with assms e d h have "writeFile fs p (Doc d') = (None, fs')"
    by (cases "writeFile fs p (Doc d')") (auto simp: edit_hooks_def split: option.splits)
  with e d h d' show ?thesis by blast
qed

lemma edit_hooks_success:
  assumes "edit_hooks msg f fs p t mi hi = (Inr (), fs')"
    and "\<And>d d'. f d = Some d' \<Longrightarrow> JSON_parse d = d \<Longrightarrow> JSON_parse d' = d'"
  shows "\<exists>d d'. read_json fs p = Some d \<and> hook_found d t mi hi = Some True \<and> f d = Some d'
            \<and> writeFile fs p (Doc d') = (None, fs') \<and> read_json fs' p = Some d'
            \<and> file_json fs' p = Some d'"
proof -
  from edit_hooks_unfold [OF assms(1)] obtain d d' where
    d: "read_json fs p = Some d" "hook_found d t mi hi = Some True" "f d = Some d'"
    and w: "writeFile fs p (Doc d') = (None, fs')"
    by blast
  from d(1) have "JSON_parse d = d"
    by (rule read_json_parsed)
  with d(3) have "JSON_parse d' = d'"
    by (rule assms(2))
  with writeFile_read_json(2) [OF w] have "read_json fs' p = Some d'"
    by simp
  with d w writeFile_read_json(1) [OF w] show ?thesis by blast
qed

lemma mkdirs_success:
  "mkdirs fs qs = (None, fs1) \<Longrightarrow> fs1 = fs\<lparr>nodes := nodes fs @ map (\<lambda>d. (d, Directory)) qs\<rparr>"
proof (induction qs arbitrary: fs)
  case Nil
  then show ?case by simp
next
  case (Cons q qs)
  from Cons.prems have "mkdirs (fs\<lparr>nodes := nodes fs @ [(q, Directory)]\<rparr>) qs = (None, fs1)"
    by (simp split: if_splits)
  from Cons.IH [OF this] show ?case by simp
qed

lemma mkdir_p_nodes:
  assumes "mkdir_p fs d = (None, fs1)"
  shows "\<exists>qs. set qs \<subseteq> set (prefixes d) \<and> (\<forall>q \<in> set qs. lookup fs q = None)
           \<and> fs1 = fs\<lparr>nodes := nodes fs @ map (\<lambda>d. (d, Directory)) qs\<rparr>"
proof -
  from assms have "mkdirs fs (filter (\<lambda>q. lookup fs q = None) (prefixes d)) = (None, fs1)"
    by (simp add: mkdir_p_def split: if_splits)
  then have "fs1 = fs\<lparr>nodes := nodes fs
      @ map (\<lambda>d. (d, Directory)) (filter (\<lambda>q. lookup fs q = None) (prefixes d))\<rparr>"
    by (rule mkdirs_success)
  moreover have "set (filter (\<lambda>q. lookup fs q = None) (prefixes d)) \<subseteq> set (prefixes d)"
    "\<forall>r \<in> set (filter (\<lambda>q. lookup fs q = None) (prefixes d)). lookup fs r = None"
    by auto
  ultimately show ?thesis by blast
qed

lemma mkdir_p_lookup_longer:
  assumes "mkdir_p fs d = (None, fs1)" and "length d < length p"
  shows "lookup fs1 p = lookup fs p"
proof -
  from mkdir_p_nodes [OF assms(1)] obtain qs where
    qs: "set qs \<subseteq> set (prefixes d)"
    and fs1: "fs1 = fs\<lparr>nodes := nodes fs @ map (\<lambda>d. (d, Directory)) qs\<rparr>"
    by blast
  have "p \<notin> set (prefixes d)"
    using assms(2) by (auto simp: in_set_prefixes dest: prefix_length_le)
  with qs have "p \<notin> set qs" by blast
  then have "map_of (map (\<lambda>d. (d, Directory)) qs) p = None"
    by (simp add: map_of_eq_None_iff image_image)
  with fs1 show ?thesis
    by (simp add: lookup_def map_add_def split: option.splits)
qed

lemma addHook_unfold:
  assumes "addHook e fs s t k h = (Inr (), fs')" and "getSettingsPath e s = Some p"
  shows "\<exists>fs1 d d'. (directoryExists fs (dirname p) \<and> fs1 = fs
                      \<or> mkdir_p fs (dirname p) = (None, fs1))
           \<and> (if fileExists fs1 p then read_json fs1 p else Some (JObj [])) = Some d
           \<and> addHook_doc t k h d = Some d'
           \<and> writeFile fs1 p (Doc d') = (None, fs')"
proof -
  define r1 where
    "r1 = (if directoryExists fs (dirname p) then (None, fs) else mkdir_p fs (dirname p))"
  from assms have a1: "(case r1 of
       (Some err, fs1) \<Rightarrow> (Inl (ErrorMessage ''Failed to add hook''), fs1)
     | (None, fs1) \<Rightarrow>
         (case (if fileExists fs1 p then read_json fs1 p else Some (JObj [])) of
            None \<Rightarrow> (Inl (ErrorMessage ''Failed to add hook''), fs1)
          | Some settings \<Rightarrow>
              (case addHook_doc t k h settings of
                 None \<Rightarrow> (Inl (ErrorMessage ''Failed to add hook''), fs1)
               | Some settings' \<Rightarrow>
                   (case writeFile fs1 p (Doc settings') of
                      (Some err, fs2) \<Rightarrow> (Inl (ErrorMessage ''Failed to add hook''), fs2)
                    | (None, fs2) \<Rightarrow> (Inr (), fs2))))) = (Inr (), fs')"
    by (simp add: addHook_def r1_def)
  then obtain fs1 where r1: "r1 = (None, fs1)"
    by (cases r1; cases "fst r1") auto
  then have o1: "directoryExists fs (dirname p) \<and> fs1 = fs \<or> mkdir_p fs (dirname p) = (None, fs1)"
    by (auto simp: r1_def split: if_splits)
  from a1 r1 obtain d where
    d: "(if fileExists fs1 p then read_json fs1 p else Some (JObj [])) = Some d"
    by (cases "if fileExists fs1 p then read_json fs1 p else Some (JObj [])") auto
  from a1 r1 d obtain d' where d': "addHook_doc t k h d = Some d'"
    by (cases "addHook_doc t k h d") auto
  from a1 r1 d d' have "writeFile fs1 p (Doc d') = (None, fs')"
    by (cases "writeFile fs1 p (Doc d')"; cases "fst (writeFile fs1 p (Doc d'))") auto
  with o1 d d' show ?thesis by blast
qed

lemma addHook_success:
  assumes "addHook e fs s t k h = (Inr (), fs')"
  shows "\<exists>p d d'. getSettingsPath e s = Some p \<and> settings_before fs p = Some d
            \<and> addHook_doc t k h d = Some d' \<and> fileExists fs' p \<and> read_json fs' p = Some d'
            \<and> file_json fs' p = Some d'"
proof -
  from assms obtain p where p: "getSettingsPath e s = Some p"
    by (auto simp: addHook_def split: option.splits)
  from p have np: "p \<noteq> []"
    by (auto simp: getSettingsPath_def split: hook_scope.splits)
  from addHook_unfold [OF assms p] obtain fs1 d d' where
    fs1: "fs1 = fs \<or> mkdir_p fs (dirname p) = (None, fs1)"
    and d: "(if fileExists fs1 p then read_json fs1 p else Some (JObj [])) = Some d"
    and d': "addHook_doc t k h d = Some d'"
    and w: "writeFile fs1 p (Doc d') = (None, fs')"
    by blast
  have "length (dirname p) < length p"
    using np by (simp add: dirname_def)
  with fs1 have "lookup fs1 p = lookup fs p"
    using mkdir_p_lookup_longer by blast
  then have "fileExists fs1 p = fileExists fs p" "read_json fs1 p = read_json fs p"
    by (simp_all add: fileExists_def read_json_def readFile_def)
  with d have b: "settings_before fs p = Some d"
    by (auto simp: settings_before_def split: if_splits)
  then have "JSON_parse d = d"
    by (auto simp: settings_before_def split: if_splits dest: read_json_parsed)
  with d' have "JSON_parse d' = d'"
    by (rule parsed_addHook_doc)
  with writeFile_read_json(2) [OF w] have "read_json fs' p = Some d'"
    by simp
  with p b d' writeFile_read(2) [OF w] writeFile_read_json(1) [OF w] show ?thesis
    by blast
qed

section \<open>The clean-up of deleteHook\<close>

lemma on_event_event_array:
  assumes "on_event t f s = Some s'"
  shows "\<exists>x x'. event_array s t = Some x \<and> f x = Some x' \<and> event_array s' t = Some x'"
  using assms
  by (auto simp: on_event_def modify_member_Some event_array_def update_conv')

lemma hooks_empty_False:
  "hooks_empty s = Some False \<Longrightarrow> hooks_member s \<noteq> Some (JObj [])"
  by (cases s) (auto simp: hooks_empty_def split: Option.bind_splits option.splits json.splits)

lemma hooks_member_delete:
  "delete_member ''hooks'' s = Some d' \<Longrightarrow> hooks_member d' = None"
  by (cases s) (auto simp: delete_conv')

lemma event_empty_False:
  "event_empty s t = Some False \<Longrightarrow> event_array s t \<noteq> Some (JArr [])"
  by (cases s)
     (auto simp: event_empty_def event_array_def member_Some_Some
       split: Option.bind_splits option.splits json.splits)

lemma event_array_delete_event:
  assumes "modify_member s ''hooks'' (delete_member (event_name t)) = Some s'"
  shows "event_array s' t = None"
proof -
  from assms obtain kvs x x' where
    "s = JObj kvs" "delete_member (event_name t) x = Some x'"
    "s' = JObj (AList.update ''hooks'' x' kvs)"
    by (auto simp: modify_member_Some)
  then show ?thesis
    by (cases x) (auto simp: event_array_def update_conv' delete_conv')
qed

lemma event_array_delete_hooks:
  "delete_member ''hooks'' s = Some d' \<Longrightarrow> event_array d' t = None"
  by (simp add: event_array_def hooks_member_delete)

lemma deleteHook_doc_steps:
  assumes "deleteHook_doc t mi hi d = Some d'"
  obtains s1 e1 s2 e2 s3 e3 where
    "on_hooks t mi (splice_one hi) d = Some s1"
    "matcher_hooks_empty s1 t mi = Some e1"
    "(if e1 then on_event t (splice_one mi) s1 else Some s1) = Some s2"
    "event_empty s2 t = Some e2"
    "(if e2 then modify_member s2 ''hooks'' (delete_member (event_name t)) else Some s2) = Some s3"
    "hooks_empty s3 = Some e3"
    "(if e3 then delete_member ''hooks'' s3 else Some s3) = Some d'"
  using assms by (auto simp: deleteHook_doc_def split: Option.bind_splits)

lemma deleteHook_doc_no_empty_hooks:
  assumes "deleteHook_doc t mi hi d = Some d'"
  shows "hooks_member d' \<noteq> Some (JObj [])"
proof -
  from assms obtain s3 e3 where
    e3: "hooks_empty s3 = Some e3"
    and d': "(if e3 then delete_member ''hooks'' s3 else Some s3) = Some d'"
    by (rule deleteHook_doc_steps)
  show ?thesis
  proof (cases e3)
    case True
    with d' show ?thesis by (simp add: hooks_member_delete)
  next
    case False
    with e3 d' show ?thesis by (auto dest: hooks_empty_False)
  qed
qed

lemma deleteHook_doc_no_empty_event:
  assumes "deleteHook_doc t mi hi d = Some d'"
  shows "event_array d' t \<noteq> Some (JArr [])"
proof -
  from assms obtain s2 e2 s3 e3 where
    e2: "event_empty s2 t = Some e2"
    and s3: "(if e2 then modify_member s2 ''hooks'' (delete_member (event_name t)) else Some s2)
             = Some s3"
    and d': "(if e3 then delete_member ''hooks'' s3 else Some s3) = Some d'"
    by (rule deleteHook_doc_steps)
  have "event_array s3 t \<noteq> Some (JArr [])"
  proof (cases e2)
    case True
    with s3 show ?thesis by (simp add: event_array_delete_event)
  next
    case False
    with e2 s3 show ?thesis by (auto dest: event_empty_False)
  qed
  with d' show ?thesis
    by (cases e3) (auto simp: event_array_delete_hooks)
qed

lemma event_array_SomeD:
  assumes "event_array s t = Some x"
  shows "\<exists>kvs evs. s = JObj kvs \<and> map_of kvs ''hooks'' = Some (JObj evs)
           \<and> map_of evs (event_name t) = Some x"
  using assms
  by (cases s) (auto simp: event_array_def split: option.splits json.splits)

lemma on_hooks_array:
  assumes "on_hooks t mi (splice_one hi) d = Some s1" and "event_array d t = Some (JArr ms)"
  shows "\<exists>mk hl. mi < length ms \<and> ms ! mi = JObj mk \<and> map_of mk ''hooks'' = Some (JArr hl)
           \<and> event_array s1 t =
               Some (JArr (ms[mi := JObj (AList.update ''hooks'' (JArr (remove_nth hi hl)) mk)]))"
proof -
  from assms(1) have
    "on_event t (\<lambda>arr. modify_element arr mi (\<lambda>m. modify_member m ''hooks'' (splice_one hi))) d
     = Some s1"
    by (simp add: on_hooks_def)
  from on_event_event_array [OF this] assms(2) obtain x' where
    m: "modify_element (JArr ms) mi (\<lambda>m. modify_member m ''hooks'' (splice_one hi)) = Some x'"
    and s1: "event_array s1 t = Some x'"
    by auto
  from m [unfolded modify_element_Some] obtain y where mi: "mi < length ms"
    and y: "modify_member (ms ! mi) ''hooks'' (splice_one hi) = Some y"
    and x': "x' = JArr (ms[mi := y])"
    by auto
  from y obtain mk hl where "ms ! mi = JObj mk" "map_of mk ''hooks'' = Some (JArr hl)"
    "y = JObj (AList.update ''hooks'' (JArr (remove_nth hi hl)) mk)"
    by (auto simp: modify_member_Some splice_Some)
  with mi x' s1 show ?thesis by auto
qed

lemma matcher_hooks_empty_array:
  assumes "event_array s t = Some (JArr ms)" and "mi < length ms" and "ms ! mi = JObj mk"
    and "map_of mk ''hooks'' = Some (JArr hl)"
  shows "matcher_hooks_empty s t mi = Some (hl = [])"
  using event_array_SomeD [OF assms(1)] assms(2-)
  by (auto simp: matcher_hooks_empty_def)

lemma set_remove_nth_update: "set (remove_nth i (xs[i := x])) \<subseteq> set xs"
proof -
  have "remove_nth i (xs[i := x]) = take i xs @ drop (Suc i) xs"
    by (simp add: remove_nth_def)
  then show ?thesis
    by (auto dest: in_set_takeD in_set_dropD)
qed

lemma deleteHook_doc_no_new_empty_entry:
  assumes "deleteHook_doc t mi hi d = Some d'"
    and "event_array d t = Some (JArr ms)" and "event_array d' t = Some (JArr ms')"
    and "e \<in> set ms'" and "entry_hooks e = Some (JArr [])"
  shows "e \<in> set ms"
proof -
  from assms(1) obtain s1 e1 s2 e2 s3 e3 where
    s1: "on_hooks t mi (splice_one hi) d = Some s1"
    and e1: "matcher_hooks_empty s1 t mi = Some e1"
    and s2: "(if e1 then on_event t (splice_one mi) s1 else Some s1) = Some s2"
    and s3: "(if e2 then modify_member s2 ''hooks'' (delete_member (event_name t)) else Some s2)
             = Some s3"
    and d': "(if e3 then delete_member ''hooks'' s3 else Some s3) = Some d'"
    by (rule deleteHook_doc_steps)
  from on_hooks_array [OF s1 assms(2)] obtain mk hl where
    mi: "mi < length ms" and mk: "ms ! mi = JObj mk" and hl: "map_of mk ''hooks'' = Some (JArr hl)"
    and a1: "event_array s1 t =
        Some (JArr (ms[mi := JObj (AList.update ''hooks'' (JArr (remove_nth hi hl)) mk)]))"
    by blast
  let ?y = "JObj (AList.update ''hooks'' (JArr (remove_nth hi hl)) mk)"
  have "matcher_hooks_empty s1 t mi = Some (remove_nth hi hl = [])"
    using mi by (intro matcher_hooks_empty_array [OF a1, where mk = "AList.update ''hooks'' (JArr (remove_nth hi hl)) mk"])
      (simp_all add: update_conv')
  with e1 have e1': "e1 = (remove_nth hi hl = [])" by simp
  from d' s3 have "event_array d' t = event_array s2 t \<or> event_array d' t = None"
    by (cases e3; cases e2) (auto simp: event_array_delete_hooks event_array_delete_event)
  with assms(3) have a2: "event_array s2 t = Some (JArr ms')" by auto
  show ?thesis
  proof (cases e1)
    case True
    with s2 have "on_event t (splice_one mi) s1 = Some s2" by simp
    from on_event_event_array [OF this] a1 a2
    have "ms' = remove_nth mi (ms[mi := ?y])"
      by (auto simp: splice_Some)
    with assms(4) show ?thesis
      using set_remove_nth_update [of mi ms ?y] by auto
  next
    case False
    with s2 a1 a2 have "ms' = ms[mi := ?y]" by simp
    with assms(4) have "e = ?y \<or> e \<in> set ms"
      using set_update_subset_insert by fastforce
    moreover from False e1' have "entry_hooks ?y \<noteq> Some (JArr [])"
      by (simp add: update_conv')
    ultimately show ?thesis using assms(5) by auto
  qed
qed

lemma hook_found_array:
  assumes "hook_found d t mi hi = Some True" and "event_array d t = Some (JArr ms)"
    and "mi < length ms" and "ms ! mi = JObj mk" and "map_of mk ''hooks'' = Some (JArr hl)"
  shows "hi < length hl"
  using event_array_SomeD [OF assms(2)] assms(1,3-)
  by (auto simp: hook_found_def split: if_splits)

lemma deleteHook_doc_arrays:
  assumes "map_of kvs ''hooks'' = Some (JObj evs)"
    and "map_of evs (event_name t) = Some (JArr ms)"
    and "mi < length ms" and "ms ! mi = JObj mk" and "map_of mk ''hooks'' = Some (JArr hl)"
  shows "deleteHook_doc t mi hi (JObj kvs) =
     Some (let hl' = remove_nth hi hl;
               ms' = (if hl' = [] then remove_nth mi ms
                      else ms[mi := JObj (AList.update ''hooks'' (JArr hl') mk)]);
               evs' = (if ms' = [] then AList.delete (event_name t) evs
                       else AList.update (event_name t) (JArr ms') evs)
           in if evs' = [] then JObj (AList.delete ''hooks'' kvs)
              else JObj (AList.update ''hooks'' (JObj evs') kvs))"
  using assms
  by (simp add: deleteHook_doc_def on_hooks_def on_event_def matcher_hooks_empty_def
      event_empty_def hooks_empty_def update_conv' Let_def remove_nth_def delete_update_same)

text \<open>
  C6. After every successful \<^verbatim>\<open>deleteHook\<close> the written document has neither an empty
  \<^verbatim>\<open>hooks\<close> object nor an empty array for the event type, and every matcher entry with an
  empty hooks list that it has under the event type was there before. When the containers
  on the addressed path are arrays the document is exactly this: the hook is removed from
  its list; if the list is then empty the matcher entry is removed from the array of the
  event type; if that array is then empty its key is removed from \<^verbatim>\<open>hooks\<close>; if \<^verbatim>\<open>hooks\<close>
  then has no key it is removed from the document. So deleting the only hook of the only
  matcher of the only event type leaves a document without the key \<^verbatim>\<open>hooks\<close>.
\<close>

theorem deleteHook_cascade:
  assumes "deleteHook fs p t mi hi = (Inr (), fs')"
  shows "\<exists>d d'. read_json fs p = Some d \<and> read_json fs' p = Some d'
    \<and> hooks_member d' \<noteq> Some (JObj [])
    \<and> event_array d' t \<noteq> Some (JArr [])
    \<and> (\<forall>ms ms' e. event_array d t = Some (JArr ms) \<and> event_array d' t = Some (JArr ms')
          \<and> e \<in> set ms' \<and> entry_hooks e = Some (JArr []) \<longrightarrow> e \<in> set ms)
    \<and> (\<forall>kvs evs ms mk hl.
          d = JObj kvs \<and> map_of kvs ''hooks'' = Some (JObj evs)
          \<and> map_of evs (event_name t) = Some (JArr ms)
          \<and> mi < length ms \<and> ms ! mi = JObj mk \<and> map_of mk ''hooks'' = Some (JArr hl) \<longrightarrow>
          d' = (let hl' = remove_nth hi hl;
                    ms' = (if hl' = [] then remove_nth mi ms
                           else ms[mi := JObj (AList.update ''hooks'' (JArr hl') mk)]);
                    evs' = (if ms' = [] then AList.delete (event_name t) evs
                            else AList.update (event_name t) (JArr ms') evs)
                in if evs' = [] then JObj (AList.delete ''hooks'' kvs)
                   else JObj (AList.update ''hooks'' (JObj evs') kvs)))
    \<and> (\<forall>mk x. hooks_member d = Some (JObj [(event_name t, JArr [JObj mk])])
          \<and> entry_hooks (JObj mk) = Some (JArr [x]) \<longrightarrow> hooks_member d' = None)"
proof -
  from assms have "edit_hooks ''Failed to delete hook'' (deleteHook_doc t mi hi) fs p t mi hi
      = (Inr (), fs')"
    by (simp add: deleteHook_def)
  moreover have "\<And>d d'. deleteHook_doc t mi hi d = Some d' \<Longrightarrow> JSON_parse d = d
      \<Longrightarrow> JSON_parse d' = d'"
    by (rule parsed_deleteHook_doc)
  ultimately obtain d d' where
    r: "read_json fs p = Some d" and f: "hook_found d t mi hi = Some True"
    and dd: "deleteHook_doc t mi hi d = Some d'" and r': "read_json fs' p = Some d'"
    using edit_hooks_success by blast
  have arrays: "d' = (let hl' = remove_nth hi hl;
                    ms' = (if hl' = [] then remove_nth mi ms
                           else ms[mi := JObj (AList.update ''hooks'' (JArr hl') mk)]);
                    evs' = (if ms' = [] then AList.delete (event_name t) evs
                            else AList.update (event_name t) (JArr ms') evs)
                in if evs' = [] then JObj (AList.delete ''hooks'' kvs)
                   else JObj (AList.update ''hooks'' (JObj evs') kvs))"
    if "d = JObj kvs" "map_of kvs ''hooks'' = Some (JObj evs)"
      "map_of evs (event_name t) = Some (JArr ms)" "mi < length ms" "ms ! mi = JObj mk"
      "map_of mk ''hooks'' = Some (JArr hl)"
    for kvs evs ms mk hl
    using deleteHook_doc_arrays [OF that(2-6), of hi] dd that(1) by simp
  have last_hook: "hooks_member d' = None"
    if h: "hooks_member d = Some (JObj [(event_name t, JArr [JObj mk])])"
      and e: "entry_hooks (JObj mk) = Some (JArr [x])"
    for mk x
  proof -
    from h obtain kvs where d: "d = JObj kvs"
      and kvs: "map_of kvs ''hooks'' = Some (JObj [(event_name t, JArr [JObj mk])])"
      by (cases d) auto
    then have ea: "event_array d t = Some (JArr [JObj mk])"
      by (simp add: event_array_def)
    from dd obtain s1 where "on_hooks t mi (splice_one hi) d = Some s1"
      by (rule deleteHook_doc_steps)
    from on_hooks_array [OF this ea] have mi: "mi = 0" by auto
    from e have mk: "map_of mk ''hooks'' = Some (JArr [x])" by simp
    from hook_found_array [OF f ea, of mk "[x]"] mi mk have hi: "hi = 0" by simp
    from arrays [OF d kvs, of "[JObj mk]" mk "[x]"] mi hi mk
    have "d' = JObj (AList.delete ''hooks'' kvs)"
      by (simp add: remove_nth_def)
    then show ?thesis by (simp add: delete_conv')
  qed
  have c: "\<forall>ms ms' e. event_array d t = Some (JArr ms) \<and> event_array d' t = Some (JArr ms')
          \<and> e \<in> set ms' \<and> entry_hooks e = Some (JArr []) \<longrightarrow> e \<in> set ms"
    using deleteHook_doc_no_new_empty_entry [OF dd] by blast
  have a: "\<forall>kvs evs ms mk hl.
          d = JObj kvs \<and> map_of kvs ''hooks'' = Some (JObj evs)
          \<and> map_of evs (event_name t) = Some (JArr ms)
          \<and> mi < length ms \<and> ms ! mi = JObj mk \<and> map_of mk ''hooks'' = Some (JArr hl) \<longrightarrow>
          d' = (let hl' = remove_nth hi hl;
                    ms' = (if hl' = [] then remove_nth mi ms
                           else ms[mi := JObj (AList.update ''hooks'' (JArr hl') mk)]);
                    evs' = (if ms' = [] then AList.delete (event_name t) evs
                            else AList.update (event_name t) (JArr ms') evs)
                in if evs' = [] then JObj (AList.delete ''hooks'' kvs)
                   else JObj (AList.update ''hooks'' (JObj evs') kvs))"
    by (intro allI impI, elim conjE, rule arrays)
  have l: "\<forall>mk x. hooks_member d = Some (JObj [(event_name t, JArr [JObj mk])])
          \<and> entry_hooks (JObj mk) = Some (JArr [x]) \<longrightarrow> hooks_member d' = None"
    by (intro allI impI, elim conjE, rule last_hook)
  show ?thesis
    apply (rule exI [of _ d])
    apply (rule exI [of _ d'])
    apply (intro conjI)
          apply (rule r)
         apply (rule r')
        apply (rule deleteHook_doc_no_empty_hooks [OF dd])
       apply (rule deleteHook_doc_no_empty_event [OF dd])
      apply (rule c)
     apply (rule a)
    apply (rule l)
    done
qed

theorem deleteHook_cascade_witness:
  "deleteHook example_fs settings_path Stop 0 0
     = (Inr (), fs_with (Doc (JObj [(''model'', JStr ''opus'')])))
   \<and> hooks_member example_settings
     = Some (JObj [(event_name Stop, JArr [JObj [(''matcher'', JStr ''*''),
                                               (''hooks'', JArr [hook_json example_hook])]])])
   \<and> hooks_member (JObj [(''model'', JStr ''opus'')]) = None"
proof -
  let ?C = "JObj [(''model'', JStr ''opus'')]"
  have d: "deleteHook example_fs settings_path Stop 0 0 = (Inr (), fs_with (Doc ?C))"
    by (simp add: hooks_defs example_defs fs_defs)
  have h: "hooks_member example_settings
     = Some (JObj [(event_name Stop, JArr [JObj [(''matcher'', JStr ''*''),
                                               (''hooks'', JArr [hook_json example_hook])]])])"
    by (simp add: example_settings_def)
  have r: "read_json (fs_with (Doc ?C)) settings_path = Some ?C"
    by (simp add: read_json_fs_with)
  from deleteHook_cascade [OF d] r h have "hooks_member ?C = None"
    by (auto simp: read_json_example_fs)
  with d h show ?thesis by blast
qed

section \<open>addHook: one entry per matcher\<close>

lemma find_matcher_found:
  "find_matcher k ms = Some (Some i) \<Longrightarrow>
     i = matcher_index k ms \<and> i < length ms \<and> matcher_is k (ms ! i)"
proof (induction k ms arbitrary: i rule: find_matcher.induct)
  case (1 k)
  then show ?case by simp
next
  case (2 k ms)
  then show ?case by simp
qed (auto simp: matcher_index_def split: if_splits)

lemma find_matcher_none:
  "find_matcher k ms = Some None \<Longrightarrow> \<not> list_ex (matcher_is k) ms"
  by (induction k ms rule: find_matcher.induct) (auto split: if_splits)

lemma find_matcher_append:
  "find_matcher k ms = Some None \<Longrightarrow> matcher_is k y \<Longrightarrow>
     find_matcher k (ms @ [y]) = Some (Some (length ms))"
proof (induction k ms rule: find_matcher.induct)
  case (1 k)
  then show ?case by (cases y) auto
qed (auto split: if_splits)

lemma find_matcher_update:
  "find_matcher k ms = Some (Some i) \<Longrightarrow> matcher_is k y \<Longrightarrow>
     find_matcher k (ms[i := y]) = Some (Some i)"
proof (induction k ms arbitrary: i rule: find_matcher.induct)
  case (1 k)
  then show ?case by simp
next
  case (2 k ms)
  then show ?case by simp
qed (cases y; auto split: if_splits)+
lemma matcher_index_none: "\<not> list_ex (matcher_is k) ms \<Longrightarrow> matcher_index k ms = length ms"
  by (induction ms) (auto simp: matcher_index_def)

lemma matcher_is_update_hooks:
  "matcher_is k (JObj mk) \<Longrightarrow> matcher_is k (JObj (AList.update ''hooks'' v mk))"
  by (simp add: update_conv')

lemma add_to_matchers_again:
  assumes "find_matcher k ms = Some (Some i)" and "ms ! i = JObj mk"
    and "map_of mk ''hooks'' = Some (JArr hl)"
  shows "add_to_matchers k x (JArr ms) =
           Some (JArr (ms[i := JObj (AList.update ''hooks'' (JArr (hl @ [x])) mk)]))"
  using assms find_matcher_found [OF assms(1)] by (simp add: add_to_matchers_def)

lemma add_to_matchers_spec:
  assumes "add_to_matchers k x (JArr ms) = Some r"
  shows "\<exists>ms' mk hl.
      r = JArr ms'
      \<and> ms' = (if list_ex (matcher_is k) ms
               then ms[matcher_index k ms := append_hook x (ms ! matcher_index k ms)]
               else ms @ [new_entry k [x]])
      \<and> find_matcher k ms' = Some (Some (matcher_index k ms))
      \<and> ms' ! matcher_index k ms = JObj mk
      \<and> map_of mk ''hooks'' = Some (JArr (hl @ [x]))
      \<and> (if list_ex (matcher_is k) ms
         then entry_hooks (ms ! matcher_index k ms) = Some (JArr hl) else hl = [])"
proof (cases "find_matcher k ms")
  case None
  with assms show ?thesis by (simp add: add_to_matchers_def)
next
  case (Some res)
  show ?thesis
  proof (cases res)
    case None
    with Some have f: "find_matcher k ms = Some None" by simp
    then have n: "\<not> list_ex (matcher_is k) ms" by (rule find_matcher_none)
    from f assms have r: "r = JArr (ms @ [new_entry k [x]])"
      by (simp add: add_to_matchers_def new_entry_def)
    have "find_matcher k (ms @ [new_entry k [x]]) = Some (Some (length ms))"
      using f by (rule find_matcher_append) (simp add: new_entry_def)
    with r n show ?thesis
      by (intro exI [of _ "ms @ [new_entry k [x]]"]
          exI [of _ "[(''matcher'', JStr k), (''hooks'', JArr [x])]"] exI [of _ "[]"])
        (simp add: matcher_index_none new_entry_def)
  next
    case (Some i)
    with \<open>find_matcher k ms = Some res\<close> have f: "find_matcher k ms = Some (Some i)" by simp
    from find_matcher_found [OF f] have i: "i = matcher_index k ms" "i < length ms"
      and m: "matcher_is k (ms ! i)" by auto
    from i(2) m have ex: "list_ex (matcher_is k) ms"
      by (auto simp: list_ex_iff)
    from f assms have
      "modify_element (JArr ms) i (\<lambda>entry. modify_member entry ''hooks'' (push x)) = Some r"
      by (simp add: add_to_matchers_def)
    from this [unfolded modify_element_Some] i(2) obtain y where
      y: "modify_member (ms ! i) ''hooks'' (push x) = Some y" and r: "r = JArr (ms[i := y])"
      by auto
    from y [unfolded modify_member_Some push_Some] obtain mk hl where
      mk: "ms ! i = JObj mk" "map_of mk ''hooks'' = Some (JArr hl)"
      and y': "y = JObj (AList.update ''hooks'' (JArr (hl @ [x])) mk)"
      by auto
    from m mk have "matcher_is k y"
      unfolding y' by (intro matcher_is_update_hooks) simp
    with f have "find_matcher k (ms[i := y]) = Some (Some i)"
      by (rule find_matcher_update)
    with r ex i mk y' show ?thesis
      by (intro exI [of _ "ms[i := y]"]
          exI [of _ "AList.update ''hooks'' (JArr (hl @ [x])) mk"] exI [of _ hl])
        (simp add: update_conv')
  qed
qed

lemma event_entries_after: "event_array d t = Some (JArr ms) \<Longrightarrow> event_entries d t = JArr ms"
  by (simp add: event_entries_def or_default_def)

lemma settings_shapedD:
  assumes "settings_shaped d"
  obtains kvs evs where "d = JObj kvs" "or_default (map_of kvs ''hooks'') (JObj []) = JObj evs"
  using assms by (auto simp: settings_shaped_def split: json.splits)

lemma addHook_doc_shaped:
  assumes "d = JObj kvs" and "or_default (map_of kvs ''hooks'') (JObj []) = JObj evs"
  shows "addHook_doc t k h d =
           map_option (\<lambda>arr'. JObj (AList.update ''hooks''
                                  (JObj (AList.update (event_name t) arr' evs)) kvs))
             (add_to_matchers k (hook_json h) (event_entries d t))"
    and "event_entries d t = or_default (map_of evs (event_name t)) (JArr [])"
proof -
  show e: "event_entries d t = or_default (map_of evs (event_name t)) (JArr [])"
    using assms
    by (auto simp: event_entries_def event_array_def or_default_def
        split: option.splits json.splits if_splits)
  show "addHook_doc t k h d =
           map_option (\<lambda>arr'. JObj (AList.update ''hooks''
                                  (JObj (AList.update (event_name t) arr' evs)) kvs))
             (add_to_matchers k (hook_json h) (event_entries d t))"
    unfolding e using assms by (simp add: addHook_doc_def Let_def)
qed

lemma addHook_doc_event:
  assumes "addHook_doc t k h d = Some d'" and "settings_shaped d"
  shows "\<exists>ms r. event_entries d t = JArr ms
           \<and> add_to_matchers k (hook_json h) (JArr ms) = Some r
           \<and> event_array d' t = Some r \<and> settings_shaped d'"
proof -
  from assms(2) obtain kvs evs where
    d: "d = JObj kvs" "or_default (map_of kvs ''hooks'') (JObj []) = JObj evs"
    by (rule settings_shapedD)
  from assms(1) addHook_doc_shaped(1) [OF d, of t k h] obtain r where
    r: "add_to_matchers k (hook_json h) (event_entries d t) = Some r"
    and d': "d' = JObj (AList.update ''hooks'' (JObj (AList.update (event_name t) r evs)) kvs)"
    by auto
  from r obtain ms where "event_entries d t = JArr ms"
    by (cases "event_entries d t") (auto simp: add_to_matchers_def)
  with r d' show ?thesis
    by (auto simp: event_array_def settings_shaped_def or_default_def update_conv')
qed

lemma addHook_doc_again:
  assumes "settings_shaped d" and "event_entries d t = JArr ms"
    and "add_to_matchers k (hook_json h) (JArr ms) = Some r"
  shows "\<exists>d'. addHook_doc t k h d = Some d' \<and> event_array d' t = Some r"
proof -
  from assms(1) obtain kvs evs where
    d: "d = JObj kvs" "or_default (map_of kvs ''hooks'') (JObj []) = JObj evs"
    by (rule settings_shapedD)
  from addHook_doc_shaped(1) [OF d, of t k h] assms(2,3) show ?thesis
    by (auto simp: event_array_def update_conv')
qed

lemma map_of_new_dirs: "d \<in> set qs \<Longrightarrow> map_of (map (\<lambda>d. (d, Directory)) qs) d = Some Directory"
  by (induction qs) auto

lemma mkdir_p_creates:
  assumes "mkdir_p fs d = (None, fs1)"
  shows "directoryExists fs1 d"
proof -
  from assms have nf: "\<not> fileExists fs d"
    by (auto simp: mkdir_p_def list_ex_iff split: if_splits)
  from mkdir_p_nodes [OF assms] obtain qs where
    fs1: "fs1 = fs\<lparr>nodes := nodes fs @ map (\<lambda>d. (d, Directory)) qs\<rparr>" by blast
  show ?thesis
  proof (cases "lookup fs d")
    case None
    define new where "new = filter (\<lambda>q. lookup fs q = None) (prefixes d)"
    have "d \<in> set new"
      using None by (simp add: new_def)
    then have "map_of (map (\<lambda>d. (d, Directory)) new) d = Some Directory"
      by (rule map_of_new_dirs)
    moreover from assms have "mkdirs fs new = (None, fs1)"
      by (simp add: mkdir_p_def new_def split: if_splits)
    then have "fs1 = fs\<lparr>nodes := nodes fs @ map (\<lambda>d. (d, Directory)) new\<rparr>"
      by (rule mkdirs_success)
    moreover from None have "d \<noteq> []" "map_of (nodes fs) d = None"
      by (auto simp: lookup_def split: if_splits)
    ultimately show ?thesis
      by (simp add: directoryExists_def lookup_def map_add_def)
  next
    case (Some n)
    with nf have "n = Directory"
      by (cases n) (auto simp: fileExists_def)
    with Some fs1 show ?thesis
      by (auto simp: directoryExists_def lookup_def map_add_def split: if_splits)
  qed
qed

lemma writeFile_keeps_directory:
  assumes "writeFile fs p c = (None, fs')" and "directoryExists fs q"
  shows "directoryExists fs' q"
proof -
  from writeFile_success [OF assms(1)] have "lookup fs p \<noteq> Some Directory"
    and "fs' = fs\<lparr>nodes := AList.update p (File c) (nodes fs)\<rparr>"
    by simp_all
  moreover from this(1) have "p \<noteq> []"
    by (auto simp: lookup_def)
  ultimately show ?thesis
    using assms(2) by (auto simp: directoryExists_def lookup_def update_conv')
qed

lemma addHook_success_dir:
  assumes "addHook e fs s t k h = (Inr (), fs')" and "getSettingsPath e s = Some p"
  shows "directoryExists fs' (dirname p)"
proof -
  from addHook_unfold [OF assms] obtain fs1 d d' where
    fs1: "directoryExists fs (dirname p) \<and> fs1 = fs \<or> mkdir_p fs (dirname p) = (None, fs1)"
    and w: "writeFile fs1 p (Doc d') = (None, fs')"
    by blast
  from fs1 have "directoryExists fs1 (dirname p)"
    by (auto intro: mkdir_p_creates)
  with w show ?thesis by (rule writeFile_keeps_directory)
qed

lemma addHook_success_again:
  assumes "addHook e fs s t k h = (Inr (), fs')" and "getSettingsPath e s = Some p"
  shows "\<exists>fs1 c. writeFile fs1 p c = (None, fs')"
  using addHook_unfold [OF assms] by blast

lemma addHook_on_existing:
  assumes "getSettingsPath e s = Some p" and "directoryExists fs (dirname p)"
    and "writeFile fs0 p c = (None, fs)" and "read_json fs p = Some d"
    and "addHook_doc t k h d = Some d'"
  shows "\<exists>fs'. addHook e fs s t k h = (Inr (), fs') \<and> read_json fs' p = Some d'"
proof -
  let ?fs' = "fs\<lparr>nodes := AList.update p (File (Doc d')) (nodes fs)\<rparr>"
  from assms(3) have w: "writeFile fs p (Doc d') = (None, ?fs')"
    by (rule writeFile_again)
  from assms(4) have "JSON_parse d = d"
    by (rule read_json_parsed)
  with assms(5) have "JSON_parse d' = d'"
    by (rule parsed_addHook_doc)
  with writeFile_read_json(2) [OF w] have "read_json ?fs' p = Some d'"
    by simp
  with assms(1,2,4,5) writeFile_read(2) [OF assms(3)] w show ?thesis
    by (simp add: addHook_def)
qed

text \<open>
  C7 (amended). Let the settings file be absent, or hold an object whose key \<^verbatim>\<open>hooks\<close> is
  absent, falsy or an object that is not an array. When \<^verbatim>\<open>addHook\<close> succeeds, the array
  of the event type in the written document is the former array in which the first entry
  whose \<^verbatim>\<open>matcher\<close> is exactly the given string has the new hook at the end of its hooks
  list, or, when no entry has that matcher, the former array followed by a new entry with
  the matcher and the hook alone. A second \<^verbatim>\<open>addHook\<close> with the same event type and
  matcher then succeeds too, leaves the array at the same length and appends its hook to
  that same entry, whose hooks list ends with the two hooks.
\<close>

theorem addHook_shares_matcher_entry:
  assumes "addHook e fs s t k h1 = (Inr (), fs1)"
    and "getSettingsPath e s = Some p"
    and "settings_before fs p = Some d"
    and "settings_shaped d"
  shows "\<exists>ms ms1 ms2 d1 d2 fs2 hl.
     event_entries d t = JArr ms
     \<and> read_json fs1 p = Some d1 \<and> event_array d1 t = Some (JArr ms1)
     \<and> ms1 = (if list_ex (matcher_is k) ms
              then ms[matcher_index k ms :=
                        append_hook (hook_json h1) (ms ! matcher_index k ms)]
              else ms @ [new_entry k [hook_json h1]])
     \<and> (if list_ex (matcher_is k) ms
        then entry_hooks (ms ! matcher_index k ms) = Some (JArr hl) else hl = [])
     \<and> matcher_index k ms1 = matcher_index k ms
     \<and> matcher_index k ms < length ms1
     \<and> matcher_is k (ms1 ! matcher_index k ms)
     \<and> entry_hooks (ms1 ! matcher_index k ms) = Some (JArr (hl @ [hook_json h1]))
     \<and> addHook e fs1 s t k h2 = (Inr (), fs2)
     \<and> read_json fs2 p = Some d2 \<and> event_array d2 t = Some (JArr ms2)
     \<and> ms2 = ms1[matcher_index k ms := append_hook (hook_json h2) (ms1 ! matcher_index k ms)]
     \<and> length ms2 = length ms1
     \<and> entry_hooks (ms2 ! matcher_index k ms) = Some (JArr (hl @ [hook_json h1, hook_json h2]))"
proof -
  let ?i = "matcher_index k ms"
  from addHook_success [OF assms(1)] assms(2,3) obtain d1 where
    d1: "addHook_doc t k h1 d = Some d1" and f1: "fileExists fs1 p"
    and r1: "read_json fs1 p = Some d1"
    by auto
  from addHook_doc_event [OF d1 assms(4)] obtain ms r where
    ms: "event_entries d t = JArr ms"
    and a1: "add_to_matchers k (hook_json h1) (JArr ms) = Some r"
    and e1: "event_array d1 t = Some r" and sh1: "settings_shaped d1"
    by blast
  from add_to_matchers_spec [OF a1] obtain ms1 mk hl where
    r: "r = JArr ms1"
    and ms1: "ms1 = (if list_ex (matcher_is k) ms
              then ms[matcher_index k ms :=
                        append_hook (hook_json h1) (ms ! matcher_index k ms)]
              else ms @ [new_entry k [hook_json h1]])"
    and fm: "find_matcher k ms1 = Some (Some (matcher_index k ms))"
    and mk: "ms1 ! matcher_index k ms = JObj mk"
      "map_of mk ''hooks'' = Some (JArr (hl @ [hook_json h1]))"
    and hl: "if list_ex (matcher_is k) ms
        then entry_hooks (ms ! matcher_index k ms) = Some (JArr hl) else hl = []"
    by blast
  from find_matcher_found [OF fm] have
    i: "matcher_index k ms1 = matcher_index k ms" "matcher_index k ms < length ms1"
      "matcher_is k (ms1 ! matcher_index k ms)"
    by auto
  let ?y = "JObj (AList.update ''hooks'' (JArr ((hl @ [hook_json h1]) @ [hook_json h2])) mk)"
  have a2: "add_to_matchers k (hook_json h2) (JArr ms1)
      = Some (JArr (ms1[matcher_index k ms := ?y]))"
    using fm mk by (rule add_to_matchers_again)
  from e1 r have "event_entries d1 t = JArr ms1"
    by (simp add: event_entries_after)
  from addHook_doc_again [OF sh1 this a2] obtain d2 where
    d2: "addHook_doc t k h2 d1 = Some d2"
    and e2: "event_array d2 t = Some (JArr (ms1[matcher_index k ms := ?y]))"
    by blast
  from addHook_success_again [OF assms(1,2)] obtain fs0 c where
    w1: "writeFile fs0 p c = (None, fs1)"
    by blast
  from addHook_on_existing [OF assms(2) addHook_success_dir [OF assms(1,2)] w1 r1 d2]
  obtain fs2 where
    c2: "addHook e fs1 s t k h2 = (Inr (), fs2)" and r2: "read_json fs2 p = Some d2"
    by blast
  have y: "?y = append_hook (hook_json h2) (ms1 ! matcher_index k ms)"
    using mk by simp
  have "entry_hooks ((ms1[matcher_index k ms := ?y]) ! matcher_index k ms)
      = Some (JArr (hl @ [hook_json h1, hook_json h2]))"
    using i(2) by (simp add: update_conv')
  with ms r1 e1 r ms1 hl i mk c2 r2 e2 y show ?thesis
    by (intro exI [of _ ms] exI [of _ ms1] exI [of _ "ms1[matcher_index k ms := ?y]"]
        exI [of _ d1] exI [of _ d2] exI [of _ fs2] exI [of _ hl]) simp
qed

text \<open>
  Two hooks added for \<^verbatim>\<open>Stop\<close> and the matcher \<^verbatim>\<open>*\<close> where no settings file exists yet:
  one entry with both hooks.
\<close>

theorem addHook_shares_matcher_entry_witness:
  "addHook example_env fresh_fs HookGlobal Stop ''*'' example_hook
     = (Inr (), fs_with (Doc (JObj [(''hooks'',
          JObj [(''Stop'', JArr [new_entry ''*'' [hook_json example_hook]])])])))
   \<and> getSettingsPath example_env HookGlobal = Some settings_path
   \<and> settings_before fresh_fs settings_path = Some (JObj [])
   \<and> settings_shaped (JObj [])
   \<and> addHook example_env
        (fs_with (Doc (JObj [(''hooks'',
           JObj [(''Stop'', JArr [new_entry ''*'' [hook_json example_hook]])])])))
        HookGlobal Stop ''*'' other_hook
     = (Inr (), fs_with (Doc (JObj [(''hooks'',
          JObj [(''Stop'',
            JArr [new_entry ''*'' [hook_json example_hook, hook_json other_hook]])])])))"
proof -
  let ?D1 = "JObj [(''hooks'', JObj [(''Stop'', JArr [new_entry ''*'' [hook_json example_hook]])])]"
  let ?D2 = "JObj [(''hooks'',
          JObj [(''Stop'',
            JArr [new_entry ''*'' [hook_json example_hook, hook_json other_hook]])])]"
  have a: "addHook example_env fresh_fs HookGlobal Stop ''*'' example_hook
      = (Inr (), fs_with (Doc ?D1))"
    by (simp add: hooks_defs example_defs fs_defs fresh_fs_def mkdir_p_def new_entry_def
        prefixes_snoc [of "[_]", simplified])
  have g: "getSettingsPath example_env HookGlobal = Some settings_path"
    by (simp add: getSettingsPath_def example_defs)
  have b: "settings_before fresh_fs settings_path = Some (JObj [])"
    by (simp add: settings_before_def fresh_fs_def example_defs fs_defs)
  have s: "settings_shaped (JObj [])"
    by (simp add: settings_shaped_def or_default_def)
  have "\<exists>fs2 d2 ms2 hl. addHook example_env (fs_with (Doc ?D1)) HookGlobal Stop ''*'' other_hook
          = (Inr (), fs2) \<and> read_json fs2 settings_path = Some d2
        \<and> event_array d2 Stop = Some (JArr ms2)
        \<and> entry_hooks (ms2 ! matcher_index ''*'' [])
            = Some (JArr (hl @ [hook_json example_hook, hook_json other_hook]))"
    using addHook_shares_matcher_entry [OF a g b s, of other_hook]
    by (auto simp: event_entries_def event_array_def or_default_def)
  moreover have "addHook example_env (fs_with (Doc ?D1)) HookGlobal Stop ''*'' other_hook
      = (Inr (), fs_with (Doc ?D2))"
    by (simp add: hooks_defs example_defs fs_defs new_entry_def)
  ultimately show ?thesis
    using a g b s by simp
qed

text \<open>
  The claim as it was written is about every call. With the settings file
  \<^verbatim>\<open>{"hooks": []}\<close> the event type becomes a property of an array, which
  \<^verbatim>\<open>JSON.stringify\<close> does not write: both calls report success and the file has no
  matcher entry at all.
\<close>

theorem addHook_hooks_array_counterexample:
  "addHook example_env (fs_with (Doc (JObj [(''hooks'', JArr [])]))) HookGlobal Stop ''*''
     example_hook
     = (Inr (), fs_with (Doc (JObj [(''hooks'', JArr [])])))
   \<and> addHook example_env (fs_with (Doc (JObj [(''hooks'', JArr [])]))) HookGlobal Stop ''*''
     other_hook
     = (Inr (), fs_with (Doc (JObj [(''hooks'', JArr [])])))
   \<and> event_array (JObj [(''hooks'', JArr [])]) Stop = None"
  by (simp add: hooks_defs example_defs fs_defs event_array_def)

section \<open>Round trip: addHook, then discoverHooks\<close>

lemma parse_matchers_no_null:
  assumes "JNull \<notin> set ms"
  shows "\<exists>r. parse_matchers ms = Some r
           \<and> (\<forall>mk hs. JObj mk \<in> set ms \<and> map_of mk ''hooks'' = Some (JArr hs)
                 \<longrightarrow> \<lparr>matcher = map_of mk ''matcher'', hooks = hs\<rparr> \<in> set r)"
  using assms
proof (induction ms)
  case Nil
  then show ?case by simp
next
  case (Cons m ms)
  then obtain r where r: "parse_matchers ms = Some r"
    and "\<forall>mk hs. JObj mk \<in> set ms \<and> map_of mk ''hooks'' = Some (JArr hs)
                 \<longrightarrow> \<lparr>matcher = map_of mk ''matcher'', hooks = hs\<rparr> \<in> set r"
    by auto
  moreover from Cons.prems have "m \<noteq> JNull" by auto
  ultimately show ?case
    by (cases m) (auto split: option.splits json.splits)
qed

lemma parse_events_no_null:
  assumes "list_all (\<lambda>(n, v). case v of JArr ms \<Rightarrow> JNull \<notin> set ms | _ \<Rightarrow> True) evs"
  shows "\<exists>cs. parse_events p l evs = Some cs
           \<and> (\<forall>n ms r. (n, JArr ms) \<in> set evs \<and> parse_matchers ms = Some r \<and> r \<noteq> []
                 \<longrightarrow> \<lparr>eventType = n, matchers = r, location = l, configPath = p\<rparr> \<in> set cs)"
  using assms
proof (induction evs)
  case Nil
  then show ?case by simp
next
  case (Cons ev evs)
  then obtain cs where cs: "parse_events p l evs = Some cs"
    and "\<forall>n ms r. (n, JArr ms) \<in> set evs \<and> parse_matchers ms = Some r \<and> r \<noteq> []
           \<longrightarrow> \<lparr>eventType = n, matchers = r, location = l, configPath = p\<rparr> \<in> set cs"
    by auto
  moreover obtain n v where ev: "ev = (n, v)" by (cases ev)
  moreover have "\<exists>r. parse_matchers ms = Some r" if "v = JArr ms" for ms
    using Cons.prems ev that parse_matchers_no_null [of ms] by auto
  ultimately show ?case
    by (cases v) (auto split: option.splits)
qed

lemma list_all_update:
  "list_all P al \<Longrightarrow> P (k, v) \<Longrightarrow> list_all P (AList.update k v al)"
  by (induction al) auto

lemma in_set_update: "(k, v) \<in> set (AList.update k v al)"
  by (induction al) auto

lemma hook_json_fields:
  "member (Some (hook_json h)) ''type'' = Some (Some (JStr (kind_name (hook_type h))))"
  "member (Some (hook_json h)) ''command'' = Some (map_option JStr (command h))"
  "member (Some (hook_json h)) ''prompt'' = Some (map_option JStr (prompt h))"
  "member (Some (hook_json h)) ''timeout''
              = Some (map_option (\<lambda>n. JNum (to_double n)) (timeout h))"
  by (cases "command h"; cases "prompt h"; cases "timeout h"; simp add: hook_json_def)+

lemma discoverHooks_includes:
  assumes "getSettingsPath e s = Some p" and "fileExists fs p"
  shows "\<exists>l. set (parseHooks fs p l) \<subseteq> set (discoverHooks e fs)"
  using assms
  by (cases s) (auto simp: discoverHooks_def getSettingsPath_def Let_def)

lemma addHook_doc_parse:
  assumes "addHook_doc t k h d = Some d'" and "settings_shaped d" and "no_null_entry d"
  shows "\<exists>cs r m. parseHooks_doc p l d' = Some cs
           \<and> \<lparr>eventType = event_name t, matchers = r, location = l, configPath = p\<rparr> \<in> set cs
           \<and> m \<in> set r \<and> matcher m = Some (JStr k)
           \<and> hooks m \<noteq> [] \<and> last (hooks m) = hook_json h"
proof -
  let ?P = "\<lambda>(n, v). case v of JArr ms \<Rightarrow> JNull \<notin> set ms | _ \<Rightarrow> True"
  from assms(2) obtain kvs evs where
    d: "d = JObj kvs" "or_default (map_of kvs ''hooks'') (JObj []) = JObj evs"
    by (rule settings_shapedD)
  from assms(1) addHook_doc_shaped(1) [OF d, of t k h] obtain r0 where
    r0: "add_to_matchers k (hook_json h) (event_entries d t) = Some r0"
    and d': "d' = JObj (AList.update ''hooks'' (JObj (AList.update (event_name t) r0 evs)) kvs)"
    by auto
  from r0 obtain ms where ms: "event_entries d t = JArr ms"
    by (cases "event_entries d t") (auto simp: add_to_matchers_def)
  from add_to_matchers_spec [OF r0 [unfolded ms]] obtain ms1 mk hl where
    r: "r0 = JArr ms1"
    and ms1: "ms1 = (if list_ex (matcher_is k) ms
              then ms[matcher_index k ms :=
                        append_hook (hook_json h) (ms ! matcher_index k ms)]
              else ms @ [new_entry k [hook_json h]])"
    and fm: "find_matcher k ms1 = Some (Some (matcher_index k ms))"
    and mk: "ms1 ! matcher_index k ms = JObj mk"
      "map_of mk ''hooks'' = Some (JArr (hl @ [hook_json h]))"
    by blast
  from find_matcher_found [OF fm] mk have
    i: "matcher_index k ms < length ms1" and mm: "map_of mk ''matcher'' = Some (JStr k)"
    by auto
  from assms(3) d have evs: "list_all ?P evs"
    by (auto simp: no_null_entry_def or_default_def split: option.splits json.splits if_splits)
  have "JNull \<notin> set ms"
  proof (cases "map_of evs (event_name t)")
    case None
    with ms addHook_doc_shaped(2) [OF d, of t] show ?thesis
      by (simp add: or_default_def)
  next
    case (Some v)
    then have "(event_name t, v) \<in> set evs" by (rule map_of_SomeD)
    with evs have "?P (event_name t, v)" by (auto simp: list_all_iff)
    with Some ms addHook_doc_shaped(2) [OF d, of t] show ?thesis
      by (auto simp: or_default_def split: if_splits)
  qed
  moreover have "set ms1 \<subseteq> insert (ms1 ! matcher_index k ms) (set ms) \<union> {new_entry k [hook_json h]}"
  proof (cases "list_ex (matcher_is k) ms")
    case True
    with ms1 have "ms1 = ms[matcher_index k ms := ms1 ! matcher_index k ms]"
      using i by simp
    then show ?thesis
      using set_update_subset_insert [of ms "matcher_index k ms" "ms1 ! matcher_index k ms"]
      by auto
  next
    case False
    with ms1 show ?thesis by auto
  qed
  ultimately have nn: "JNull \<notin> set ms1"
    using mk(1) by (auto simp: new_entry_def)
  from parse_matchers_no_null [OF nn] obtain rr where
    rr: "parse_matchers ms1 = Some rr"
    and al: "\<forall>mk hs. JObj mk \<in> set ms1 \<and> map_of mk ''hooks'' = Some (JArr hs)
                 \<longrightarrow> \<lparr>matcher = map_of mk ''matcher'', hooks = hs\<rparr> \<in> set rr"
    by blast
  from i mk(1) have "JObj mk \<in> set ms1"
    by (metis nth_mem)
  with al [rule_format, of mk "hl @ [hook_json h]"] mk(2) mm
  have m: "\<lparr>matcher = Some (JStr k), hooks = hl @ [hook_json h]\<rparr> \<in> set rr"
    by simp
  let ?evs1 = "AList.update (event_name t) (JArr ms1) evs"
  have "list_all ?P ?evs1"
    using evs nn by (intro list_all_update) auto
  from parse_events_no_null [OF this, of p l] obtain cs where
    cs: "parse_events p l ?evs1 = Some cs"
    and al2: "\<forall>n ms r. (n, JArr ms) \<in> set ?evs1 \<and> parse_matchers ms = Some r \<and> r \<noteq> []
           \<longrightarrow> \<lparr>eventType = n, matchers = r, location = l, configPath = p\<rparr> \<in> set cs"
    by blast
  from m have "rr \<noteq> []" by auto
  with al2 [rule_format, of "event_name t" ms1 rr] rr
    in_set_update [of "event_name t" "JArr ms1" evs]
  have c: "\<lparr>eventType = event_name t, matchers = rr, location = l, configPath = p\<rparr> \<in> set cs"
    by simp
  have "parseHooks_doc p l d' = Some cs"
    using cs by (simp add: parseHooks_doc_def d' r update_conv')
  with c m show ?thesis
    by (intro exI [of _ cs] exI [of _ rr]
        exI [of _ "\<lparr>matcher = Some (JStr k), hooks = hl @ [hook_json h]\<rparr>"]) simp
qed

text \<open>
  C9 (amended). Let the settings file be absent, or hold an object whose key \<^verbatim>\<open>hooks\<close> is
  absent, falsy or an object that is not an array, with no \<^verbatim>\<open>null\<close> among the matcher
  entries of any event type. After a successful \<^verbatim>\<open>addHook\<close>, \<^verbatim>\<open>discoverHooks\<close> returns
  a configuration of that settings file with the same event type, in which a matcher entry
  has the same matcher string and a hooks list that ends with the added hook: an object
  with the same \<^verbatim>\<open>type\<close>, \<^verbatim>\<open>command\<close>, \<^verbatim>\<open>prompt\<close> and \<^verbatim>\<open>timeout\<close> (the timeout as the
  JavaScript number that the hook holds), an absent field reading as \<^verbatim>\<open>undefined\<close>.
\<close>

theorem addHook_then_discoverHooks:
  assumes "addHook e fs s t k h = (Inr (), fs')"
    and "getSettingsPath e s = Some p"
    and "settings_before fs p = Some d"
    and "settings_shaped d"
    and "no_null_entry d"
  shows "\<exists>c \<in> set (discoverHooks e fs').
     eventType c = event_name t \<and> configPath c = p
     \<and> (\<exists>m \<in> set (matchers c).
          matcher m = Some (JStr k) \<and> hooks m \<noteq> [] \<and> last (hooks m) = hook_json h
          \<and> member (Some (last (hooks m))) ''type'' = Some (Some (JStr (kind_name (hook_type h))))
          \<and> member (Some (last (hooks m))) ''command'' = Some (map_option JStr (command h))
          \<and> member (Some (last (hooks m))) ''prompt'' = Some (map_option JStr (prompt h))
          \<and> member (Some (last (hooks m))) ''timeout''
              = Some (map_option (\<lambda>n. JNum (to_double n)) (timeout h)))"
proof -
  from addHook_success [OF assms(1)] assms(2,3) obtain d' where
    d': "addHook_doc t k h d = Some d'" and f: "fileExists fs' p"
    and r: "read_json fs' p = Some d'"
    by auto
  from discoverHooks_includes [OF assms(2) f] obtain l where
    l: "set (parseHooks fs' p l) \<subseteq> set (discoverHooks e fs')"
    by blast
  from addHook_doc_parse [OF d' assms(4,5), of p l] obtain cs rr m where
    cs: "parseHooks_doc p l d' = Some cs"
    and c: "\<lparr>eventType = event_name t, matchers = rr, location = l, configPath = p\<rparr> \<in> set cs"
    and m: "m \<in> set rr" "matcher m = Some (JStr k)" "hooks m \<noteq> []"
      "last (hooks m) = hook_json h"
    by blast
  from cs r have "parseHooks fs' p l = cs"
    by (simp add: parseHooks_def)
  with c l have
    "\<lparr>eventType = event_name t, matchers = rr, location = l, configPath = p\<rparr>
       \<in> set (discoverHooks e fs')"
    by blast
  moreover from m have "\<exists>m \<in> set rr.
          matcher m = Some (JStr k) \<and> hooks m \<noteq> [] \<and> last (hooks m) = hook_json h
          \<and> member (Some (last (hooks m))) ''type'' = Some (Some (JStr (kind_name (hook_type h))))
          \<and> member (Some (last (hooks m))) ''command'' = Some (map_option JStr (command h))
          \<and> member (Some (last (hooks m))) ''prompt'' = Some (map_option JStr (prompt h))
          \<and> member (Some (last (hooks m))) ''timeout''
              = Some (map_option (\<lambda>n. JNum (to_double n)) (timeout h))"
    by (intro bexI [of _ m]) (simp_all add: hook_json_fields)
  ultimately show ?thesis
    by (intro bexI [of _ "\<lparr>eventType = event_name t, matchers = rr, location = l, configPath = p\<rparr>"])
      simp_all
qed

text \<open>A hook added for \<^verbatim>\<open>PostToolUse\<close> to the example settings, and what is read back.\<close>

theorem addHook_then_discoverHooks_witness:
  "addHook example_env example_fs HookGlobal PostToolUse ''Bash'' other_hook
     = (Inr (), fs_with (Doc (JObj [(''model'', JStr ''opus''),
         (''hooks'', JObj [(''Stop'', JArr [new_entry ''*'' [hook_json example_hook]]),
                           (''PostToolUse'', JArr [new_entry ''Bash'' [hook_json other_hook]])])])))
   \<and> getSettingsPath example_env HookGlobal = Some settings_path
   \<and> settings_before example_fs settings_path = Some example_settings
   \<and> settings_shaped example_settings \<and> no_null_entry example_settings
   \<and> discoverHooks example_env
        (fs_with (Doc (JObj [(''model'', JStr ''opus''),
         (''hooks'', JObj [(''Stop'', JArr [new_entry ''*'' [hook_json example_hook]]),
                           (''PostToolUse'', JArr [new_entry ''Bash'' [hook_json other_hook]])])])))
     = [\<lparr>eventType = ''Stop'',
         matchers = [\<lparr>matcher = Some (JStr ''*''), hooks = [hook_json example_hook]\<rparr>],
         location = ''Global (~/.claude)'', configPath = settings_path\<rparr>,
        \<lparr>eventType = ''PostToolUse'',
         matchers = [\<lparr>matcher = Some (JStr ''Bash''), hooks = [hook_json other_hook]\<rparr>],
         location = ''Global (~/.claude)'', configPath = settings_path\<rparr>]"
proof -
  let ?D = "JObj [(''model'', JStr ''opus''),
         (''hooks'', JObj [(''Stop'', JArr [new_entry ''*'' [hook_json example_hook]]),
                           (''PostToolUse'', JArr [new_entry ''Bash'' [hook_json other_hook]])])]"
  have a: "addHook example_env example_fs HookGlobal PostToolUse ''Bash'' other_hook
      = (Inr (), fs_with (Doc ?D))"
    by (simp add: hooks_defs example_defs fs_defs new_entry_def)
  have g: "getSettingsPath example_env HookGlobal = Some settings_path"
    by (simp add: getSettingsPath_def example_defs)
  have b: "settings_before example_fs settings_path = Some example_settings"
    by (simp add: settings_before_def example_fs_def fs_with_def settings_path_def fs_defs)
  have s: "settings_shaped example_settings" "no_null_entry example_settings"
    by (simp_all add: settings_shaped_def no_null_entry_def or_default_def example_settings_def)
  have "\<exists>c \<in> set (discoverHooks example_env (fs_with (Doc ?D))).
      eventType c = event_name PostToolUse \<and> configPath c = settings_path"
    using addHook_then_discoverHooks [OF a g b s] by blast
  moreover have "discoverHooks example_env (fs_with (Doc ?D))
     = [\<lparr>eventType = ''Stop'',
         matchers = [\<lparr>matcher = Some (JStr ''*''), hooks = [hook_json example_hook]\<rparr>],
         location = ''Global (~/.claude)'', configPath = settings_path\<rparr>,
        \<lparr>eventType = ''PostToolUse'',
         matchers = [\<lparr>matcher = Some (JStr ''Bash''), hooks = [hook_json other_hook]\<rparr>],
         location = ''Global (~/.claude)'', configPath = settings_path\<rparr>]"
    by (simp add: discoverHooks_def parseHooks_def parseHooks_doc_def example_env_def
        fs_with_def settings_path_def fs_defs new_entry_def Let_def)
  ultimately show ?thesis
    using a g b s by simp
qed

text \<open>
  The claim as it was written is about every hook that \<^verbatim>\<open>addHook\<close> reports as written.
  With the settings file \<^verbatim>\<open>{"hooks": []}\<close> the call reports success, the file is written
  as it was, and \<^verbatim>\<open>discoverHooks\<close> finds no hook.
\<close>

theorem addHook_then_discoverHooks_counterexample:
  "addHook example_env (fs_with (Doc (JObj [(''hooks'', JArr [])]))) HookGlobal Stop ''*''
     example_hook
     = (Inr (), fs_with (Doc (JObj [(''hooks'', JArr [])])))
   \<and> discoverHooks example_env (fs_with (Doc (JObj [(''hooks'', JArr [])]))) = []"
  by (simp add: hooks_defs example_defs fs_defs discoverHooks_def parseHooks_def
      parseHooks_doc_def Let_def)

section \<open>Failed mutations\<close>



























section \<open>The other top-level keys, as they are written\<close>






end
